theory Spec2Isabelle
  imports Complex_Main "HOL-Library.Multiset"
begin

section \<open>Errors\<close>

text \<open>
  The exceptions the modelled code can raise.  \<open>ZeroDivisionError\<close> is Python's own;
  \<open>ShapeMismatch\<close> stands for the tensor library refusing an element-wise operation on
  vectors of different sizes; the other three are the errors the specification gives the
  hard-negative sampler.
\<close>

datatype error =
  ZeroDivisionError | ShapeMismatch | ConfigurationError | InvariantViolation | NotFoundError

section \<open>Floating-point rounding\<close>

text \<open>
  Python floats are binary64 numbers: every arithmetic operation returns the exact result
  rounded to the nearest representable number, ties to even.  The operations of the modelled
  code take the rounding function as a parameter \<open>fl\<close>, and \<open>fl64\<close> is that rounding for
  magnitudes in the normal range (neither overflow nor subnormal numbers).
\<close>

definition round_half_even :: "real \<Rightarrow> int" where
  "round_half_even y =
     (let f = \<lfloor>y\<rfloor>; d = y - of_int f
      in if d < 1 / 2 then f else if 1 / 2 < d then f + 1 else if even f then f else f + 1)"

definition fl64 :: "real \<Rightarrow> real" where
  "fl64 x =
     (if x = 0 then 0
      else let e = \<lfloor>log 2 \<bar>x\<bar>\<rfloor>
           in of_int (round_half_even (x / 2 powi (e - 52))) * 2 powi (e - 52))"

section \<open>AverageMeter (train.py, lines 290--305)\<close>

text \<open>
  The tracker has four attributes.  At every call site the recorded value is a float and the
  weight is the batch dimension of a tensor (an integer).  A float is the real number it
  denotes, and every float operation rounds its exact result with \<open>fl\<close>.
  The attributes \<open>sum\<close> and \<open>count\<close> carry the suffix \<open>_m\<close>.
\<close>

record AverageMeter =
  val :: real
  avg :: real
  sum_m :: real
  count_m :: int

definition reset :: "AverageMeter \<Rightarrow> AverageMeter" where
  "reset m = m\<lparr>val := 0, avg := 0, sum_m := 0, count_m := 0\<rparr>"

text \<open>
  The constructor \<open>__init__(self)\<close> only calls \<open>reset\<close> on the new object \<open>self\<close>, whatever
  that object holds.
\<close>

definition AverageMeter_init :: "AverageMeter \<Rightarrow> AverageMeter" where
  "AverageMeter_init self = reset self"

text \<open>
  \<open>update\<close> assigns \<open>val\<close>, adds to \<open>sum\<close> and \<open>count\<close>, then divides.  The product
  \<open>val * n\<close> converts the integer weight to a float and rounds, the sum rounds, and so does
  the quotient, which converts the integer count.  The count is an exact integer.  The
  division raises when the count is zero at that point.
\<close>

definition update ::
  "(real \<Rightarrow> real) \<Rightarrow> AverageMeter \<Rightarrow> real \<Rightarrow> int \<Rightarrow> error + AverageMeter" where
  "update fl m v n =
     (let m1 = m\<lparr>val := v\<rparr>;
          m2 = m1\<lparr>sum_m := fl (sum_m m1 + fl (v * fl (of_int n)))\<rparr>;
          m3 = m2\<lparr>count_m := count_m m2 + n\<rparr>
      in if count_m m3 = 0 then Inl ZeroDivisionError
         else Inr (m3\<lparr>avg := fl (sum_m m3 / fl (of_int (count_m m3)))\<rparr>))"

text \<open>Reading the attribute \<open>avg\<close> is a plain attribute access.\<close>

definition query_avg :: "AverageMeter \<Rightarrow> error + real" where
  "query_avg m = Inr (avg m)"

text \<open>A sequence of \<open>update\<close> calls; the first exception ends it.\<close>

fun updates ::
  "(real \<Rightarrow> real) \<Rightarrow> AverageMeter \<Rightarrow> (real \<times> int) list \<Rightarrow> error + AverageMeter" where
  "updates fl m [] = Inr m"
| "updates fl m ((v, n) # us) =
     (case update fl m v n of Inl e \<Rightarrow> Inl e | Inr m' \<Rightarrow> updates fl m' us)"

section \<open>LossAccuracy (train.py, lines 307--310)\<close>

text \<open>
  Distance vectors are lists of reals.  The element-wise difference needs equal sizes; the
  final division is by the size of \<open>dista\<close>.
\<close>

definition LossAccuracy :: "real list \<Rightarrow> real list \<Rightarrow> error + real" where
  "LossAccuracy dista distb =
     (if length dista \<noteq> length distb then Inl ShapeMismatch
      else let margin = 0;
               pred = map2 (\<lambda>a b. a - b - margin) dista distb
           in if length dista = 0 then Inl ZeroDivisionError
              else Inr (real (length (filter (\<lambda>p. p > 0) pred)) * 1.0 / real (length dista)))"

section \<open>Sampler capacity (train.py, lines 77 and 155--156)\<close>

definition hard_frac :: real where
  "hard_frac = 0.5"

definition train_classes :: "int list" where
  "train_classes = [0..7]"

text \<open>Python's \<open>int\<close> on a float truncates toward zero.\<close>

definition py_int :: "real \<Rightarrow> int" where
  "py_int x = (if 0 \<le> x then \<lfloor>x\<rfloor> else \<lceil>x\<rceil>)"

definition sampler_capacity :: "int \<Rightarrow> int" where
  "sampler_capacity batch_size = py_int ((hard_frac + hard_frac / 2) * of_int batch_size)"

text \<open>
  The capacity in the words of the specification, for comparison: the value rounded to the
  nearest integer.
\<close>

definition spec_capacity :: "int \<Rightarrow> int" where
  "spec_capacity batch_size = round ((hard_frac + hard_frac / 2) * of_int batch_size)"

section \<open>Collaborators and observations\<close>

text \<open>
  The network, the loss primitive, the sampler and the data loaders live outside
  \<open>train.py\<close>.  The loss primitive, the sampler's operations and the regeneration of the
  triplet list are parameters of the model; the sampler's constructor, its
  \<open>SampleNegatives\<close> and the regeneration may raise.  The float rounding of the platform
  and the contents of a newly allocated object, before its constructor runs, are parameters
  too.  What the network returns for a batch is part of the batch as the loop observes it:
  the two distance vectors, the sum of the three embedding norms, the batch dimension of
  the first input and the three index vectors.
\<close>

type_synonym idx3 = "nat list \<times> nat list \<times> nat list"

record batch =
  out_dista :: "real list"
  out_distb :: "real list"
  out_loss_embedd :: real
  in_size :: nat
  in_idx :: idx3

record 'smp collab =
  c_fl :: "real \<Rightarrow> real"
  c_fresh :: AverageMeter
  c_criterion :: "real list \<Rightarrow> real list \<Rightarrow> real list \<Rightarrow> real"
  c_OurSampler :: "nat \<Rightarrow> int \<Rightarrow> error + 'smp"
  c_SampleNegatives :: "'smp \<Rightarrow> real list \<Rightarrow> real list \<Rightarrow> real \<Rightarrow> idx3 \<Rightarrow> error + 'smp"
  c_regenerate_triplet_list :: "'smp \<Rightarrow> real \<Rightarrow> error + unit"
  c_Reset :: "'smp \<Rightarrow> 'smp"

text \<open>One call of the loss primitive: the two distance vectors and the target vector.\<close>

type_synonym criterion_call = "real list \<times> real list \<times> real list"

text \<open>\<open>torch.FloatTensor(dista.size()).fill_(1)\<close>: a vector of the size of \<open>dista\<close> filled with \<open>1\<close>.\<close>

definition fill_1 :: "real list \<Rightarrow> real list" where
  "fill_1 dista = replicate (length dista) 1"

text \<open>
  The call \<open>criterion(dista, distb, target)\<close>: it returns the loss and appends the three
  arguments it received to the record of calls.
\<close>

definition call_criterion ::
  "'smp collab \<Rightarrow> criterion_call list \<Rightarrow> real list \<Rightarrow> real list \<Rightarrow> real list
     \<Rightarrow> real \<times> criterion_call list" where
  "call_criterion c calls dista distb target =
     (c_criterion c dista distb target, calls @ [(dista, distb, target)])"

section \<open>Train (train.py, lines 184--237)\<close>

record 'smp train_state =
  tr_losses :: AverageMeter
  tr_loss_accs :: AverageMeter
  tr_emb_norms :: AverageMeter
  tr_sampler :: 'smp
  tr_calls :: "criterion_call list"

definition Train_start :: "'smp collab \<Rightarrow> 'smp \<Rightarrow> 'smp train_state" where
  "Train_start c sampler =
     \<lparr>tr_losses = AverageMeter_init (c_fresh c), tr_loss_accs = AverageMeter_init (c_fresh c),
      tr_emb_norms = AverageMeter_init (c_fresh c), tr_sampler = sampler, tr_calls = []\<rparr>"

text \<open>
  The body of the batch loop, in the order of the source: loss, sampler, accuracy, the three
  tracker updates.  The optimiser step and the log line leave the modelled state alone.
\<close>

definition Train_batch :: "'smp collab \<Rightarrow> 'smp train_state \<Rightarrow> batch \<Rightarrow> error + 'smp train_state" where
  "Train_batch c st b =
     (let dista = out_dista b; distb = out_distb b;
          target = fill_1 dista;
          (loss_triplet, calls) = call_criterion c (tr_calls st) dista distb target
      in case c_SampleNegatives c (tr_sampler st) dista distb loss_triplet (in_idx b) of
           Inl e \<Rightarrow> Inl e
         | Inr sampler \<Rightarrow>
             (let loss_embedd = out_loss_embedd b
              in case LossAccuracy dista distb of
                   Inl e \<Rightarrow> Inl e
                 | Inr loss_acc \<Rightarrow>
                     (case update (c_fl c) (tr_losses st) loss_triplet (int (in_size b)) of
                        Inl e \<Rightarrow> Inl e
                      | Inr losses \<Rightarrow>
                          (case update (c_fl c) (tr_loss_accs st) loss_acc (int (in_size b)) of
                             Inl e \<Rightarrow> Inl e
                           | Inr loss_accs \<Rightarrow>
                               (case update (c_fl c) (tr_emb_norms st)
                                       (c_fl c (loss_embedd / 3)) (int (in_size b)) of
                                  Inl e \<Rightarrow> Inl e
                                | Inr emb_norms \<Rightarrow>
                                    Inr \<lparr>tr_losses = losses, tr_loss_accs = loss_accs,
                                         tr_emb_norms = emb_norms, tr_sampler = sampler,
                                         tr_calls = calls\<rparr>)))))"

fun Train_loop :: "'smp collab \<Rightarrow> 'smp train_state \<Rightarrow> batch list \<Rightarrow> error + 'smp train_state" where
  "Train_loop c st [] = Inr st"
| "Train_loop c st (b # bs) =
     (case Train_batch c st b of Inl e \<Rightarrow> Inl e | Inr st' \<Rightarrow> Train_loop c st' bs)"

text \<open>The value \<open>Train\<close> returns is \<open>avg (tr_loss_accs st)\<close> of the final state.\<close>

definition Train :: "'smp collab \<Rightarrow> batch list \<Rightarrow> 'smp \<Rightarrow> error + 'smp train_state" where
  "Train c train_loader sampler = Train_loop c (Train_start c sampler) train_loader"

section \<open>TestTriplets (train.py, lines 252--278)\<close>

record test_state =
  te_losses :: AverageMeter
  te_accs :: AverageMeter
  te_calls :: "criterion_call list"

definition Test_start :: "'smp collab \<Rightarrow> test_state" where
  "Test_start c =
     \<lparr>te_losses = AverageMeter_init (c_fresh c), te_accs = AverageMeter_init (c_fresh c),
      te_calls = []\<rparr>"

definition Test_batch :: "'smp collab \<Rightarrow> test_state \<Rightarrow> batch \<Rightarrow> error + test_state" where
  "Test_batch c st b =
     (let dista = out_dista b; distb = out_distb b;
          target = fill_1 dista;
          (test_loss, calls) = call_criterion c (te_calls st) dista distb target
      in case LossAccuracy dista distb of
           Inl e \<Rightarrow> Inl e
         | Inr acc \<Rightarrow>
             (case update (c_fl c) (te_accs st) acc (int (in_size b)) of
                Inl e \<Rightarrow> Inl e
              | Inr accs \<Rightarrow>
                  (case update (c_fl c) (te_losses st) test_loss (int (in_size b)) of
                     Inl e \<Rightarrow> Inl e
                   | Inr losses \<Rightarrow>
                       Inr \<lparr>te_losses = losses, te_accs = accs, te_calls = calls\<rparr>)))"

fun Test_loop :: "'smp collab \<Rightarrow> test_state \<Rightarrow> batch list \<Rightarrow> error + test_state" where
  "Test_loop c st [] = Inr st"
| "Test_loop c st (b # bs) =
     (case Test_batch c st b of Inl e \<Rightarrow> Inl e | Inr st' \<Rightarrow> Test_loop c st' bs)"

text \<open>The value \<open>TestTriplets\<close> returns is \<open>avg (te_accs st)\<close> of the final state.\<close>

definition TestTriplets :: "'smp collab \<Rightarrow> batch list \<Rightarrow> error + test_state" where
  "TestTriplets c test_loader = Test_loop c (Test_start c) test_loader"

section \<open>SaveCheckpoint (train.py, lines 280--288)\<close>

record 'p checkpoint =
  ck_epoch :: int
  ck_state_dict :: 'p
  ck_best_prec1 :: real

text \<open>
  The file system: the directories that exist, the contents of the files, and the sequence
  of operations performed on it.
\<close>

datatype 'p fs_op = MakeDirs string | TorchSave string "'p checkpoint" | CopyFile string string

record 'p filesystem =
  fs_dirs :: "string set"
  fs_files :: "string \<rightharpoonup> 'p checkpoint"
  fs_log :: "'p fs_op list"

definition path_join :: "string \<Rightarrow> string \<Rightarrow> string" where
  "path_join d f = d @ ''/'' @ f"

definition makedirs :: "string \<Rightarrow> 'p filesystem \<Rightarrow> 'p filesystem" where
  "makedirs d fs = fs\<lparr>fs_dirs := insert d (fs_dirs fs), fs_log := fs_log fs @ [MakeDirs d]\<rparr>"

definition torch_save :: "'p checkpoint \<Rightarrow> string \<Rightarrow> 'p filesystem \<Rightarrow> 'p filesystem" where
  "torch_save state f fs =
     fs\<lparr>fs_files := (fs_files fs)(f \<mapsto> state), fs_log := fs_log fs @ [TorchSave f state]\<rparr>"

definition copyfile :: "string \<Rightarrow> string \<Rightarrow> 'p filesystem \<Rightarrow> 'p filesystem" where
  "copyfile src dst fs =
     fs\<lparr>fs_files := (fs_files fs)(dst := fs_files fs src), fs_log := fs_log fs @ [CopyFile src dst]\<rparr>"

text \<open>\<open>directory\<close> is \<open>runs_dir\<close> joined with the experiment name.\<close>

definition SaveCheckpoint ::
  "string \<Rightarrow> 'p checkpoint \<Rightarrow> bool \<Rightarrow> 'p filesystem \<Rightarrow> 'p filesystem" where
  "SaveCheckpoint directory state is_best fs =
     (let fs1 = (if directory \<notin> fs_dirs fs then makedirs directory fs else fs);
          filename = path_join directory ''checkpoint.pth.tar'';
          fs2 = torch_save state filename fs1
      in if is_best then copyfile filename (path_join directory ''model_best.pth.tar'') fs2
         else fs2)"

section \<open>The epoch loop of main (train.py, lines 155--182)\<close>

record args =
  batch_size :: int
  epochs :: int
  val_freq :: int
  triplet_freq :: int

text \<open>What the loaders and the network deliver in one epoch.\<close>

record 'p epoch_obs =
  train_batches :: "batch list"
  val_batches :: "batch list"
  state_dict :: 'p

datatype 'smp event =
    TrainLoop int
  | Validate int real bool
  | Regenerate int 'smp real
  | SamplerReset int

record ('smp, 'p) run_state =
  best_acc :: real
  sampler :: 'smp
  fs :: "'p filesystem"
  trace :: "'smp event list"

definition OurSampler_call :: "'smp collab \<Rightarrow> args \<Rightarrow> error + 'smp" where
  "OurSampler_call c a =
     c_OurSampler c (length train_classes) (sampler_capacity (batch_size a))"

text \<open>The module-level \<open>best_acc\<close> starts at \<open>0\<close>.\<close>

definition initial_state :: "'smp \<Rightarrow> 'p filesystem \<Rightarrow> ('smp, 'p) run_state" where
  "initial_state s0 fs0 = \<lparr>best_acc = 0, sampler = s0, fs = fs0, trace = []\<rparr>"

text \<open>The block guarded by \<open>epoch % args.val_freq == 0\<close>.\<close>

definition validation_block ::
  "'smp collab \<Rightarrow> string \<Rightarrow> 'p epoch_obs \<Rightarrow> int \<Rightarrow> ('smp, 'p) run_state
     \<Rightarrow> error + ('smp, 'p) run_state" where
  "validation_block c directory ob epoch st =
     (case TestTriplets c (val_batches ob) of
        Inl e \<Rightarrow> Inl e
      | Inr ts \<Rightarrow>
          (let acc = avg (te_accs ts);
               is_best = (acc > best_acc st);
               best = max acc (best_acc st);
               state = \<lparr>ck_epoch = epoch + 1, ck_state_dict = state_dict ob,
                        ck_best_prec1 = best\<rparr>
           in Inr (st\<lparr>best_acc := best,
                      fs := SaveCheckpoint directory state is_best (fs st),
                      trace := trace st @ [Validate epoch acc is_best]\<rparr>)))"

text \<open>
  The block guarded by \<open>epoch % args.triplet_freq == 0\<close>: the regeneration is handed the
  sampler and \<open>hard_frac\<close>, then the sampler is reset.
\<close>

definition regeneration_block ::
  "'smp collab \<Rightarrow> int \<Rightarrow> ('smp, 'p) run_state \<Rightarrow> error + ('smp, 'p) run_state" where
  "regeneration_block c epoch st =
     (case c_regenerate_triplet_list c (sampler st) hard_frac of
        Inl e \<Rightarrow> Inl e
      | Inr u \<Rightarrow>
          Inr (st\<lparr>sampler := c_Reset c (sampler st),
                  trace := trace st @
                    [Regenerate epoch (sampler st) hard_frac, SamplerReset epoch]\<rparr>))"

text \<open>One iteration of the loop.  Python's \<open>%\<close> raises on a zero modulus.\<close>

definition epoch_body ::
  "'smp collab \<Rightarrow> args \<Rightarrow> string \<Rightarrow> (int \<Rightarrow> 'p epoch_obs) \<Rightarrow> int \<Rightarrow> ('smp, 'p) run_state
     \<Rightarrow> error + ('smp, 'p) run_state" where
  "epoch_body c a directory obs epoch st =
     (case Train c (train_batches (obs epoch)) (sampler st) of
        Inl e \<Rightarrow> Inl e
      | Inr ts \<Rightarrow>
          (let st1 = st\<lparr>sampler := tr_sampler ts, trace := trace st @ [TrainLoop epoch]\<rparr>
           in if val_freq a = 0 then Inl ZeroDivisionError
              else case (if epoch mod val_freq a = 0
                         then validation_block c directory (obs epoch) epoch st1
                         else Inr st1) of
                     Inl e \<Rightarrow> Inl e
                   | Inr st2 \<Rightarrow>
                       if triplet_freq a = 0 then Inl ZeroDivisionError
                       else if epoch mod triplet_freq a = 0
                            then regeneration_block c epoch st2
                            else Inr st2))"

fun run_epochs ::
  "'smp collab \<Rightarrow> args \<Rightarrow> string \<Rightarrow> (int \<Rightarrow> 'p epoch_obs) \<Rightarrow> int list \<Rightarrow> ('smp, 'p) run_state
     \<Rightarrow> error + ('smp, 'p) run_state" where
  "run_epochs c a directory obs [] st = Inr st"
| "run_epochs c a directory obs (epoch # es) st =
     (case epoch_body c a directory obs epoch st of
        Inl e \<Rightarrow> Inl e
      | Inr st' \<Rightarrow> run_epochs c a directory obs es st')"

text \<open>
  The sampler is constructed before the loop; \<open>range(1, args.epochs + 1)\<close> is the list
  \<open>[1..epochs]\<close>.
\<close>

definition main ::
  "'smp collab \<Rightarrow> args \<Rightarrow> string \<Rightarrow> (int \<Rightarrow> 'p epoch_obs) \<Rightarrow> 'p filesystem
     \<Rightarrow> error + ('smp, 'p) run_state" where
  "main c a directory obs fs0 =
     (case OurSampler_call c a of
        Inl e \<Rightarrow> Inl e
      | Inr sampler0 \<Rightarrow> run_epochs c a directory obs [1..epochs a] (initial_state sampler0 fs0))"

section \<open>Hard-negative sampler (module \<open>hard_mining\<close>, not part of \<open>train.py\<close>)\<close>

text \<open>
  \<open>train.py\<close> constructs the sampler, feeds it in the training loop and resets it; the
  sampler itself is defined in another module.  Its model follows section 4.1 of the
  specification.
\<close>

type_synonym triplet = "nat \<times> nat \<times> nat"

text \<open>
  Modelled from the spec: the record kept per triplet by \<open>NHardestTripletSampler\<close>, namely the
  triplet, its loss value (the hardness) and its distance margin \<open>dista - distb\<close>.
\<close>

record hard_record =
  hr_triplet :: triplet
  hr_loss :: real
  hr_margin :: real

text \<open>
  Modelled from the spec: the state of \<open>NHardestTripletSampler\<close>, a bounded collection of
  hardest records per class id, each ordered hardest first.
\<close>

record sampler_state =
  num_classes :: nat
  capacity_per_class :: nat
  pools :: "nat \<Rightarrow> hard_record list"

text \<open>
  Modelled from the spec: \<open>Construct(num_classes, capacity_per_class)\<close> of the missing
  sampler; empty collections, \<open>ConfigurationError\<close> for a non-positive argument.
\<close>

definition Construct :: "int \<Rightarrow> int \<Rightarrow> error + sampler_state" where
  "Construct n k =
     (if n \<le> 0 \<or> k \<le> 0 then Inl ConfigurationError
      else Inr \<lparr>num_classes = nat n, capacity_per_class = nat k, pools = (\<lambda>c. [])\<rparr>)"

text \<open>
  Modelled from the spec: insertion into a collection ordered by hardness descending, absent
  from the sources.  Among equal hardness the record seen earlier stays ahead.
\<close>

fun insert_desc :: "hard_record \<Rightarrow> hard_record list \<Rightarrow> hard_record list" where
  "insert_desc r [] = [r]"
| "insert_desc r (x # xs) =
     (if hr_loss r > hr_loss x then r # x # xs else x # insert_desc r xs)"

text \<open>
  Modelled from the spec: the bounded insertion of the missing sampler.  Below capacity the
  record is inserted unconditionally; at capacity only if its hardness exceeds the smallest
  retained hardness, whose record is evicted.
\<close>

definition insert_bounded :: "nat \<Rightarrow> hard_record \<Rightarrow> hard_record list \<Rightarrow> hard_record list" where
  "insert_bounded cap r xs =
     (if length xs < cap then insert_desc r xs
      else if xs \<noteq> [] \<and> hr_loss r > hr_loss (last xs) then insert_desc r (butlast xs)
      else xs)"

text \<open>Modelled from the spec: the records of one batch handed to the missing sampler, in order.\<close>

definition batch_records ::
  "real list \<Rightarrow> real list \<Rightarrow> real list \<Rightarrow> idx3 \<Rightarrow> hard_record list" where
  "batch_records dista distb loss_values idx =
     (case idx of (idxA, idxP, idxN) \<Rightarrow>
        map (\<lambda>i. \<lparr>hr_triplet = (idxA ! i, idxP ! i, idxN ! i), hr_loss = loss_values ! i,
                  hr_margin = dista ! i - distb ! i\<rparr>) [0..<length loss_values])"

text \<open>
  Modelled from the spec: the class of a record in the missing sampler, the label of its
  anchor; \<open>label\<close> maps a dataset index to its class id.
\<close>

definition record_class :: "(nat \<Rightarrow> nat) \<Rightarrow> hard_record \<Rightarrow> nat" where
  "record_class label r = label (fst (hr_triplet r))"

text \<open>
  Modelled from the spec: one insertion of the missing sampler; a class outside
  \<open>[0, num_classes)\<close> is an \<open>InvariantViolation\<close>.
\<close>

definition insert_record ::
  "(nat \<Rightarrow> nat) \<Rightarrow> sampler_state \<Rightarrow> hard_record \<Rightarrow> error + sampler_state" where
  "insert_record label s r =
     (let c = record_class label r
      in if c \<ge> num_classes s then Inl InvariantViolation
         else Inr (s\<lparr>pools := (pools s)(c := insert_bounded (capacity_per_class s) r (pools s c))\<rparr>))"

text \<open>Modelled from the spec: the insertions of one batch into the missing sampler, failing fast.\<close>

fun insert_records ::
  "(nat \<Rightarrow> nat) \<Rightarrow> sampler_state \<Rightarrow> hard_record list \<Rightarrow> error + sampler_state" where
  "insert_records label s [] = Inr s"
| "insert_records label s (r # rs) =
     (case insert_record label s r of Inl e \<Rightarrow> Inl e | Inr s' \<Rightarrow> insert_records label s' rs)"

text \<open>
  Modelled from the spec: \<open>SampleNegatives(dista, distb, loss_values, (idxA, idxP, idxN))\<close>
  of the missing sampler; vectors of different lengths are an \<open>InvariantViolation\<close>.
\<close>

definition SampleNegatives ::
  "(nat \<Rightarrow> nat) \<Rightarrow> sampler_state \<Rightarrow> real list \<Rightarrow> real list \<Rightarrow> real list \<Rightarrow> idx3
     \<Rightarrow> error + sampler_state" where
  "SampleNegatives label s dista distb loss_values idx =
     (case idx of (idxA, idxP, idxN) \<Rightarrow>
        if length dista = length loss_values \<and> length distb = length loss_values \<and>
           length idxA = length loss_values \<and> length idxP = length loss_values \<and>
           length idxN = length loss_values
        then insert_records label s (batch_records dista distb loss_values idx)
        else Inl InvariantViolation)"

text \<open>Modelled from the spec: \<open>Reset()\<close> of the missing sampler, clearing every collection.\<close>

definition Reset :: "sampler_state \<Rightarrow> sampler_state" where
  "Reset s = s\<lparr>pools := (\<lambda>c. [])\<rparr>"

text \<open>
  Modelled from the spec: \<open>HardestForClass(class_id)\<close> of the missing sampler, the snapshot
  of a class, hardest first; \<open>NotFoundError\<close> outside \<open>[0, num_classes)\<close>.
\<close>

definition HardestForClass :: "sampler_state \<Rightarrow> int \<Rightarrow> error + hard_record list" where
  "HardestForClass s class_id =
     (if 0 \<le> class_id \<and> class_id < int (num_classes s) then Inr (pools s (nat class_id))
      else Inl NotFoundError)"

text \<open>A sequence of \<open>SampleNegatives\<close> calls; the first failure ends it.\<close>

type_synonym sample_call = "real list \<times> real list \<times> real list \<times> idx3"

fun SampleNegatives_calls ::
  "(nat \<Rightarrow> nat) \<Rightarrow> sampler_state \<Rightarrow> sample_call list \<Rightarrow> error + sampler_state" where
  "SampleNegatives_calls label s [] = Inr s"
| "SampleNegatives_calls label s ((dista, distb, loss_values, idx) # calls) =
     (case SampleNegatives label s dista distb loss_values idx of
        Inl e \<Rightarrow> Inl e
      | Inr s' \<Rightarrow> SampleNegatives_calls label s' calls)"

text \<open>The records of class \<open>c\<close> that a sequence of calls delivers, in order of arrival.\<close>

definition arrivals :: "(nat \<Rightarrow> nat) \<Rightarrow> nat \<Rightarrow> sample_call list \<Rightarrow> hard_record list" where
  "arrivals label c calls =
     filter (\<lambda>r. record_class label r = c)
       (concat (map (\<lambda>(dista, distb, loss_values, idx). batch_records dista distb loss_values idx)
                    calls))"

text \<open>A list of records in descending order of hardness.\<close>

definition desc_by_loss :: "hard_record list \<Rightarrow> bool" where
  "desc_by_loss xs = sorted_wrt (\<lambda>x y. hr_loss x \<ge> hr_loss y) xs"

text \<open>All records in descending order of hardness, with no bound on their number.\<close>

definition stable_desc :: "hard_record list \<Rightarrow> hard_record list" where
  "stable_desc rs = foldl (\<lambda>xs r. insert_desc r xs) [] rs"

section \<open>Reference notions for the claims\<close>


text \<open>
  The state a sampler accumulates over a list of training batches: each batch is reported
  with the loss of the all-ones target; the first report that raises ends the accumulation.
\<close>

definition feed_step :: "'smp collab \<Rightarrow> 'smp \<Rightarrow> batch \<Rightarrow> error + 'smp" where
  "feed_step c s b =
     c_SampleNegatives c s (out_dista b) (out_distb b)
       (c_criterion c (out_dista b) (out_distb b) (replicate (length (out_dista b)) 1))
       (in_idx b)"

fun sampler_feed :: "'smp collab \<Rightarrow> 'smp \<Rightarrow> batch list \<Rightarrow> error + 'smp" where
  "sampler_feed c s [] = Inr s"
| "sampler_feed c s (b # bs) =
     (case feed_step c s b of Inl e \<Rightarrow> Inl e | Inr s' \<Rightarrow> sampler_feed c s' bs)"

text \<open>The call of the loss primitive that the claims expect for a batch.\<close>

definition expected_call :: "batch \<Rightarrow> criterion_call" where
  "expected_call b = (out_dista b, out_distb b, replicate (length (out_dista b)) 1)"

text \<open>The validation cycles recorded in a trace: accuracy and \<open>is_best\<close> flag, in order.\<close>

fun validations :: "'smp event list \<Rightarrow> (real \<times> bool) list" where
  "validations [] = []"
| "validations (Validate e acc flag # evs) = (acc, flag) # validations evs"
| "validations (ev # evs) = validations evs"

text \<open>The \<open>best_prec1\<close> entries of the checkpoints saved, in order.\<close>

fun saved_bests :: "'p fs_op list \<Rightarrow> real list" where
  "saved_bests [] = []"
| "saved_bests (TorchSave f ck # ops) = ck_best_prec1 ck # saved_bests ops"
| "saved_bests (opn # ops) = saved_bests ops"

text \<open>
  The flags and the tracked best values that validation accuracies \<open>accs\<close> produce when the
  best value before them is \<open>b\<close>.
\<close>

fun ref_flags :: "real \<Rightarrow> real list \<Rightarrow> bool list" where
  "ref_flags b [] = []"
| "ref_flags b (acc # accs) = (acc > b) # ref_flags (max acc b) accs"

fun ref_bests :: "real \<Rightarrow> real list \<Rightarrow> real list" where
  "ref_bests b [] = []"
| "ref_bests b (acc # accs) = max acc b # ref_bests (max acc b) accs"

definition val_consistent ::
  "('smp, 'p) run_state \<Rightarrow> ('smp, 'p) run_state \<Rightarrow> real list \<Rightarrow> bool" where
  "val_consistent st st' accs \<longleftrightarrow>
     validations (trace st') = validations (trace st) @ zip accs (ref_flags (best_acc st) accs) \<and>
     saved_bests (fs_log (fs st')) =
       saved_bests (fs_log (fs st)) @ ref_bests (best_acc st) accs \<and>
     best_acc st' = last (best_acc st # ref_bests (best_acc st) accs)"

text \<open>The phases of the state machine of the specification, and the phase an event belongs to.\<close>

datatype phase = PTrain int | PValidate int | PRegenerate int | PReset int

fun phase_of :: "'smp event \<Rightarrow> phase" where
  "phase_of (TrainLoop e) = PTrain e"
| "phase_of (Validate e acc flag) = PValidate e"
| "phase_of (Regenerate e s h) = PRegenerate e"
| "phase_of (SamplerReset e) = PReset e"

definition epoch_phases :: "args \<Rightarrow> int \<Rightarrow> phase list" where
  "epoch_phases a e =
     [PTrain e] @ (if e mod val_freq a = 0 then [PValidate e] else []) @
     (if e mod triplet_freq a = 0 then [PRegenerate e, PReset e] else [])"

text \<open>The regenerations recorded in a trace: epoch, sampler state read, hard fraction.\<close>

fun regenerations :: "'smp event list \<Rightarrow> (int \<times> 'smp \<times> real) list" where
  "regenerations [] = []"
| "regenerations (Regenerate e s h # evs) = (e, s, h) # regenerations evs"
| "regenerations (ev # evs) = regenerations evs"

text \<open>
  The sampler state in the words of the specification: each epoch feeds the epoch's training
  batches to the sampler; every \<open>triplet_freq\<close> epochs the accumulated state is read by the
  regeneration and the sampler is reset.  The result is the list of regenerations (epoch,
  state read, hard fraction) and the state of the sampler after the last epoch.
\<close>

fun expected_regens ::
  "'smp collab \<Rightarrow> args \<Rightarrow> (int \<Rightarrow> 'p epoch_obs) \<Rightarrow> 'smp \<Rightarrow> int list
     \<Rightarrow> error + ((int \<times> 'smp \<times> real) list \<times> 'smp)" where
  "expected_regens c a obs s [] = Inr ([], s)"
| "expected_regens c a obs s (e # es) =
     (case sampler_feed c s (train_batches (obs e)) of
        Inl x \<Rightarrow> Inl x
      | Inr s1 \<Rightarrow>
          if e mod triplet_freq a = 0
          then (case expected_regens c a obs (c_Reset c s1) es of
                  Inl x \<Rightarrow> Inl x
                | Inr (rs, s') \<Rightarrow> Inr ((e, s1, hard_frac) # rs, s'))
          else expected_regens c a obs s1 es)"

definition is_TrainLoop :: "'smp event \<Rightarrow> bool" where
  "is_TrainLoop ev = (case ev of TrainLoop e \<Rightarrow> True | _ \<Rightarrow> False)"

text \<open>
  No operation of a sequence of \<open>update\<close> calls rounds: every weight, every product of value
  and weight and every partial sum of the products is left unchanged by \<open>fl\<close>.
\<close>

definition exact_sums :: "(real \<Rightarrow> real) \<Rightarrow> (real \<times> int) list \<Rightarrow> bool" where
  "exact_sums fl us \<longleftrightarrow>
     (\<forall>k\<in>{1..length us}.
        fl (of_int (snd (us ! (k - 1)))) = of_int (snd (us ! (k - 1))) \<and>
        fl (fst (us ! (k - 1)) * of_int (snd (us ! (k - 1)))) =
          fst (us ! (k - 1)) * of_int (snd (us ! (k - 1))) \<and>
        fl (\<Sum>(v, n)\<leftarrow>take k us. v * of_int n) = (\<Sum>(v, n)\<leftarrow>take k us. v * of_int n))"

section \<open>Example inputs\<close>

definition ex_meter :: AverageMeter where
  "ex_meter = \<lparr>val = 7, avg = 7, sum_m = 7, count_m = 7\<rparr>"

definition ex_collab :: "nat collab" where
  "ex_collab =
     \<lparr>c_fl = fl64, c_fresh = ex_meter,
      c_criterion = (\<lambda>a b t. sum_list t), c_OurSampler = (\<lambda>n k. Inr 0),
      c_SampleNegatives = (\<lambda>s a b l i. Inr (Suc s)),
      c_regenerate_triplet_list = (\<lambda>s h. Inr ()), c_Reset = (\<lambda>s. 0)\<rparr>"

definition ex_batch :: batch where
  "ex_batch =
     \<lparr>out_dista = [3, 1], out_distb = [1, 2], out_loss_embedd = 3, in_size = 2,
      in_idx = ([0, 1], [2, 3], [4, 5])\<rparr>"

definition ex_obs :: "int \<Rightarrow> unit epoch_obs" where
  "ex_obs e = \<lparr>train_batches = [ex_batch], val_batches = [ex_batch], state_dict = ()\<rparr>"

definition ex_fs :: "unit filesystem" where
  "ex_fs = \<lparr>fs_dirs = {}, fs_files = Map.empty, fs_log = []\<rparr>"

definition ex_state :: "real \<Rightarrow> (nat, unit) run_state" where
  "ex_state b = \<lparr>best_acc = b, sampler = 0, fs = ex_fs, trace = []\<rparr>"

definition ex_batch0 :: batch where
  "ex_batch0 =
     \<lparr>out_dista = [1], out_distb = [2], out_loss_embedd = 3, in_size = 1,
      in_idx = ([0], [1], [2])\<rparr>"

definition ex_obs0 :: "int \<Rightarrow> unit epoch_obs" where
  "ex_obs0 e = \<lparr>train_batches = [ex_batch], val_batches = [ex_batch0], state_dict = ()\<rparr>"

definition ex_args :: "int \<Rightarrow> int \<Rightarrow> int \<Rightarrow> args" where
  "ex_args n vf tf = \<lparr>batch_size = 64, epochs = n, val_freq = vf, triplet_freq = tf\<rparr>"

definition ex_call :: sample_call where
  "ex_call = ([5, 5, 5], [1, 1, 1], [1, 3, 2], ([10, 11, 12], [13, 14, 15], [16, 17, 18]))"

definition ex_sampler0 :: sampler_state where
  "ex_sampler0 = \<lparr>num_classes = 2, capacity_per_class = 2, pools = (\<lambda>c. [])\<rparr>"

section \<open>Properties of the rounding\<close>

lemma fl64_0: "fl64 0 = 0" by (simp add: fl64_def)

lemma fl64_eval:
  assumes "2 powi e \<le> \<bar>x\<bar>" and "\<bar>x\<bar> < 2 powi (e + 1)"
  shows "fl64 x = of_int (round_half_even (x / 2 powi (e - 52))) * 2 powi (e - 52)"
proof -
  have pos: "0 < \<bar>x\<bar>"
    using assms(1) by (smt (verit) zero_less_power_int)
  then have nz: "x \<noteq> 0" by auto
  have p1: "2 powr (of_int e) = (2::real) powi e"
    by (simp add: powr_real_of_int')
  have p2: "2 powr (of_int e + 1) = (2::real) powi (e + 1)"
    using powr_real_of_int'[of 2 "e + 1"] by simp
  have "\<lfloor>log 2 \<bar>x\<bar>\<rfloor> = e"
    using assms pos by (simp add: floor_log_eq_powr_iff p1 p2)
  with nz show ?thesis by (simp add: fl64_def Let_def)
qed

lemma fl64_exact:
  assumes "2 powi e \<le> \<bar>x\<bar>" and "\<bar>x\<bar> < 2 powi (e + 1)" and "x / 2 powi (e - 52) \<in> \<int>"
  shows "fl64 x = x"
proof -
  from assms(3) obtain z :: int where z: "x / 2 powi (e - 52) = of_int z"
    by (auto elim: Ints_cases)
  have "round_half_even (of_int z) = z"
    by (simp add: round_half_even_def)
  with fl64_eval[OF assms(1,2)] z have "fl64 x = (x / 2 powi (e - 52)) * 2 powi (e - 52)"
    by simp
  then show ?thesis by simp
qed

lemma fl64_vals:
  "fl64 1 = 1" "fl64 2 = 2" "fl64 3 = 3" "fl64 4 = 4" "fl64 6 = 6" "fl64 (1 / 2) = 1 / 2"
  using fl64_exact[of 0 1] fl64_exact[of 1 2] fl64_exact[of 1 3] fl64_exact[of 2 4]
    fl64_exact[of 2 6] fl64_exact[of "-1" "1 / 2"]
  by (simp_all add: power_int_minus)

lemma tenth_times_three:
  "fl64 (3602879701896397 / 2 ^ 55 * 3) = 5404319552844596 / 2 ^ 54"
  using fl64_eval[of "-2" "3602879701896397 / 2 ^ 55 * 3"]
  by (simp add: power_int_minus round_half_even_def Let_def)

lemma third:
  "fl64 (5404319552844596 / 2 ^ 54 / 3) = 7205759403792795 / 2 ^ 56"
  using fl64_eval[of "-4" "5404319552844596 / 2 ^ 54 / 3"]
  by (simp add: power_int_minus round_half_even_def Let_def)

section \<open>Properties of the tracker\<close>

lemma update_Inr_iff:
  "update fl m v n = Inr m' \<longleftrightarrow>
     count_m m + n \<noteq> 0 \<and>
     m' = m\<lparr>val := v, sum_m := fl (sum_m m + fl (v * fl (of_int n))),
            count_m := count_m m + n,
            avg := fl (fl (sum_m m + fl (v * fl (of_int n))) / fl (of_int (count_m m + n)))\<rparr>"
  by (auto simp: update_def Let_def)

lemma update_Inl_iff:
  "update fl m v n = Inl e \<longleftrightarrow> count_m m + n = 0 \<and> e = ZeroDivisionError"
  by (auto simp: update_def Let_def)

lemma updates_snoc:
  "updates fl m (us @ [(v, n)]) =
     (case updates fl m us of Inl e \<Rightarrow> Inl e | Inr m' \<Rightarrow> update fl m' v n)"
  by (induction fl m us rule: updates.induct) (auto split: sum.splits)

lemma updates_count:
  "updates fl m us = Inr m' \<Longrightarrow> count_m m' = count_m m + (\<Sum>(v, n)\<leftarrow>us. n)"
proof (induction fl m us rule: updates.induct)
  case (1 fl m)
  then show ?case by simp
next
  case (2 fl m v n us)
  from "2.prems" obtain m1 where u: "update fl m v n = Inr m1" and r: "updates fl m1 us = Inr m'"
    by (auto split: sum.splits)
  from u have "count_m m1 = count_m m + n"
    by (simp add: update_Inr_iff)
  with "2.IH"[OF u r] show ?case by simp
qed

lemma updates_last:
  "updates fl m us = Inr m' \<Longrightarrow> us \<noteq> [] \<Longrightarrow>
     val m' = fst (last us) \<and> avg m' = fl (sum_m m' / fl (of_int (count_m m'))) \<and>
     count_m m' \<noteq> 0"
proof (induction us arbitrary: m' rule: rev_induct)
  case Nil
  then show ?case by simp
next
  case (snoc x us)
  obtain v n where x: "x = (v, n)" by (cases x)
  from snoc.prems(1) obtain m1 where "updates fl m us = Inr m1"
    and u: "update fl m1 v n = Inr m'"
    unfolding x updates_snoc by (auto split: sum.splits)
  from u show ?case by (auto simp: update_Inr_iff x)
qed

lemma exact_sums_butlast:
  assumes "exact_sums fl (us @ [x])"
  shows "exact_sums fl us"
  unfolding exact_sums_def
proof
  fix k assume k: "k \<in> {1..length us}"
  then have k': "k \<in> {1..length (us @ [x])}" by simp
  have n: "(us @ [x]) ! (k - 1) = us ! (k - 1)"
    using k by (auto simp: nth_append)
  have t: "take k (us @ [x]) = take k us"
    using k by simp
  from assms[unfolded exact_sums_def, rule_format, OF k']
  show "fl (of_int (snd (us ! (k - 1)))) = of_int (snd (us ! (k - 1))) \<and>
        fl (fst (us ! (k - 1)) * of_int (snd (us ! (k - 1)))) =
          fst (us ! (k - 1)) * of_int (snd (us ! (k - 1))) \<and>
        fl (\<Sum>(v, n)\<leftarrow>take k us. v * of_int n) = (\<Sum>(v, n)\<leftarrow>take k us. v * of_int n)"
    unfolding n t .
qed

lemma updates_exact_sum:
  "updates fl m us = Inr m' \<Longrightarrow> exact_sums fl us \<Longrightarrow> sum_m m = 0 \<Longrightarrow>
     sum_m m' = (\<Sum>(v, n)\<leftarrow>us. v * of_int n)"
proof (induction us arbitrary: m' rule: rev_induct)
  case Nil
  then show ?case by simp
next
  case (snoc x us)
  obtain v n where x: "x = (v, n)" by (cases x)
  from snoc.prems(1) obtain m1 where r: "updates fl m us = Inr m1"
    and u: "update fl m1 v n = Inr m'"
    unfolding x updates_snoc by (auto split: sum.splits)
  have s1: "sum_m m1 = (\<Sum>(v, n)\<leftarrow>us. v * of_int n)"
    by (rule snoc.IH[OF r exact_sums_butlast[OF snoc.prems(2)] snoc.prems(3)])
  have k: "length (us @ [x]) \<in> {1..length (us @ [x])}" by simp
  from snoc.prems(2)[unfolded exact_sums_def, rule_format, OF k]
  have e1: "fl (of_int n) = of_int n" and e2: "fl (v * of_int n) = v * of_int n"
    and e3: "fl (\<Sum>(v, n)\<leftarrow>us @ [x]. v * of_int n) = (\<Sum>(v, n)\<leftarrow>us @ [x]. v * of_int n)"
    by (simp_all add: x)
  from u have "sum_m m' = fl (sum_m m1 + fl (v * fl (of_int n)))"
    by (simp add: update_Inr_iff)
  also have "\<dots> = fl (\<Sum>(v, n)\<leftarrow>us @ [x]. v * of_int n)"
    by (simp add: e1 e2 s1 x)
  finally show ?case by (simp only: e3)
qed

lemma updates_succeeds:
  "(\<forall>k\<in>{1..length us}. count_m m + (\<Sum>(v, n)\<leftarrow>take k us. n) \<noteq> 0) \<Longrightarrow>
     \<exists>m'. updates fl m us = Inr m'"
proof (induction fl m us rule: updates.induct)
  case (1 fl m)
  then show ?case by simp
next
  case (2 fl m v n us)
  from "2.prems" have "count_m m + (\<Sum>(v, n)\<leftarrow>take 1 ((v, n) # us). n) \<noteq> 0"
    by (metis One_nat_def Suc_leI atLeastAtMost_iff le_refl length_Cons zero_less_Suc)
  then have c: "count_m m + n \<noteq> 0" by simp
  then obtain m1 where u: "update fl m v n = Inr m1" and cm: "count_m m1 = count_m m + n"
    by (simp add: update_Inr_iff)
  have "\<forall>k\<in>{1..length us}. count_m m1 + (\<Sum>(v, n)\<leftarrow>take k us. n) \<noteq> 0"
  proof
    fix k assume "k \<in> {1..length us}"
    then have "Suc k \<in> {1..length ((v, n) # us)}" by simp
    with "2.prems" have "count_m m + (\<Sum>(v, n)\<leftarrow>take (Suc k) ((v, n) # us). n) \<noteq> 0"
      by blast
    then show "count_m m1 + (\<Sum>(v, n)\<leftarrow>take k us. n) \<noteq> 0"
      by (simp add: cm add.assoc)
  qed
  with "2.IH"[OF u] obtain m' where "updates fl m1 us = Inr m'" by blast
  with u show ?case by simp
qed


lemma reset_fields:
  "val (reset m) = 0" "avg (reset m) = 0" "sum_m (reset m) = 0" "count_m (reset m) = 0"
  by (simp_all add: reset_def)

section \<open>Claims about the tracker\<close>

text \<open>
  C4 (as amended).  Take any sequence of \<open>update\<close> calls after a \<open>reset\<close> in which the
  accumulated weight is non-zero after every call.  Then every call returns, and after each
  call the stored last value is the most recent value, \<open>count\<close> is the sum of the weights,
  \<open>sum\<close> has grown by value times weight and \<open>avg\<close> is \<open>sum / count\<close>, the last two as
  computed in floating point, that is with every operation rounded.  The sum is the exact
  sum of value times weight whenever no weight, product or partial sum is rounded.  In
  particular a \<open>reset\<close> followed by one \<open>update\<close> with weight \<open>1\<close> leaves \<open>avg\<close> equal to
  the value.
\<close>

theorem AverageMeter_update_sequence:
  "((\<forall>k\<in>{1..length us}. (\<Sum>(v, n)\<leftarrow>take k us. n) \<noteq> 0) \<longrightarrow>
      (\<forall>k\<in>{1..length us}. \<exists>mp m'.
          updates fl (reset m) (take (k - 1) us) = Inr mp \<and>
          updates fl (reset m) (take k us) = Inr m' \<and>
          val m' = fst (us ! (k - 1)) \<and>
          count_m m' = (\<Sum>(v, n)\<leftarrow>take k us. n) \<and>
          sum_m m' =
            fl (sum_m mp + fl (fst (us ! (k - 1)) * fl (of_int (snd (us ! (k - 1)))))) \<and>
          avg m' = fl (sum_m m' / fl (of_int (count_m m'))) \<and>
          (exact_sums fl (take k us) \<longrightarrow>
             sum_m m' = (\<Sum>(v, n)\<leftarrow>take k us. v * of_int n)))) \<and>
   (fl 1 = 1 \<and> fl x = x \<longrightarrow> (\<exists>m'. update fl (reset m) x 1 = Inr m' \<and> avg m' = x))"
proof (intro conjI impI ballI)
  fix k
  assume nz: "\<forall>k\<in>{1..length us}. (\<Sum>(v, n)\<leftarrow>take k us. n) \<noteq> 0"
    and k: "k \<in> {1..length us}"
  let ?p = "take k us" and ?q = "take (k - 1) us"
  obtain v n where vn: "us ! (k - 1) = (v, n)" by (cases "us ! (k - 1)")
  have k1: "k - 1 < length us" and sk: "Suc (k - 1) = k" using k by auto
  have pq: "?p = ?q @ [(v, n)]"
    using take_Suc_conv_app_nth[OF k1] unfolding sk vn .
  have len: "length ?p = k" using k by simp
  have "\<forall>j\<in>{1..length ?p}. count_m (reset m) + (\<Sum>(v, n)\<leftarrow>take j ?p. n) \<noteq> 0"
  proof
    fix j assume j: "j \<in> {1..length ?p}"
    with len have jk: "1 \<le> j" "j \<le> k" by simp_all
    then have "take j ?p = take j us" by (simp add: min_def)
    moreover from jk k have "j \<in> {1..length us}" by simp
    ultimately show "count_m (reset m) + (\<Sum>(v, n)\<leftarrow>take j ?p. n) \<noteq> 0"
      using nz by (simp add: reset_fields)
  qed
  from updates_succeeds[OF this] obtain m' where r: "updates fl (reset m) ?p = Inr m'"
    by blast
  from r obtain mp where q: "updates fl (reset m) ?q = Inr mp"
    and u: "update fl mp v n = Inr m'"
    unfolding pq updates_snoc by (auto split: sum.splits)
  have ne: "?p \<noteq> []" using k by auto
  have l: "last ?p = us ! (k - 1)"
    unfolding pq vn by (rule last_snoc)
  have sm: "sum_m m' = fl (sum_m mp + fl (v * fl (of_int n)))"
    using u by (simp add: update_Inr_iff)
  have ex: "sum_m m' = (\<Sum>(v, n)\<leftarrow>?p. v * of_int n)" if "exact_sums fl ?p"
    by (rule updates_exact_sum[OF r that]) (simp add: reset_fields)
  have f: "fst (us ! (k - 1)) = v" "snd (us ! (k - 1)) = n"
    by (simp_all only: vn fst_conv snd_conv)
  note L = updates_last[OF r ne]
  show "\<exists>mp m'.
          updates fl (reset m) ?q = Inr mp \<and>
          updates fl (reset m) ?p = Inr m' \<and>
          val m' = fst (us ! (k - 1)) \<and>
          count_m m' = (\<Sum>(v, n)\<leftarrow>?p. n) \<and>
          sum_m m' =
            fl (sum_m mp + fl (fst (us ! (k - 1)) * fl (of_int (snd (us ! (k - 1)))))) \<and>
          avg m' = fl (sum_m m' / fl (of_int (count_m m'))) \<and>
          (exact_sums fl ?p \<longrightarrow> sum_m m' = (\<Sum>(v, n)\<leftarrow>?p. v * of_int n))"
    unfolding f
  proof (intro exI conjI impI)
    show "updates fl (reset m) ?q = Inr mp" by (rule q)
    show "updates fl (reset m) ?p = Inr m'" by (rule r)
    show "val m' = v" using L l by (simp only: vn fst_conv)
    show "count_m m' = (\<Sum>(v, n)\<leftarrow>?p. n)"
      using updates_count[OF r] by (simp add: reset_fields)
    show "sum_m m' = fl (sum_m mp + fl (v * fl (of_int n)))" by (rule sm)
    show "avg m' = fl (sum_m m' / fl (of_int (count_m m')))" using L by blast
    show "sum_m m' = (\<Sum>(v, n)\<leftarrow>?p. v * of_int n)" if "exact_sums fl ?p"
      by (rule ex[OF that])
  qed
next
  assume "fl 1 = 1 \<and> fl x = x"
  then show "\<exists>m'. update fl (reset m) x 1 = Inr m' \<and> avg m' = x"
    by (simp add: update_Inr_iff reset_fields)
qed

theorem AverageMeter_update_sequence_witness:
  "(\<exists>m'. updates fl64 (reset ex_meter) [(2, 1), (4, 1)] = Inr m' \<and>
         val m' = 4 \<and> sum_m m' = 6 \<and> count_m m' = 2 \<and> avg m' = 3) \<and>
   (\<exists>m'. update fl64 (reset ex_meter) (1 / 2) 1 = Inr m' \<and> avg m' = 1 / 2)"
proof -
  let ?us = "[(2, 1), (4, 1)] :: (real \<times> int) list"
  have two: "k = 1 \<or> k = 2" if "k \<in> {1..length ?us}" for k
    using that by auto
  have nz: "\<forall>k\<in>{1..length ?us}. (\<Sum>(v, n)\<leftarrow>take k ?us. n) \<noteq> 0"
  proof
    fix k assume "k \<in> {1..length ?us}"
    from two[OF this] show "(\<Sum>(v, n)\<leftarrow>take k ?us. n) \<noteq> 0" by auto
  qed
  have ex: "exact_sums fl64 (take 2 ?us)"
    unfolding exact_sums_def
  proof
    fix k assume "k \<in> {1..length (take 2 ?us)}"
    then have "k = 1 \<or> k = 2" by auto
    then show "fl64 (of_int (snd (take 2 ?us ! (k - 1)))) = of_int (snd (take 2 ?us ! (k - 1))) \<and>
        fl64 (fst (take 2 ?us ! (k - 1)) * of_int (snd (take 2 ?us ! (k - 1)))) =
          fst (take 2 ?us ! (k - 1)) * of_int (snd (take 2 ?us ! (k - 1))) \<and>
        fl64 (\<Sum>(v, n)\<leftarrow>take k (take 2 ?us). v * of_int n) =
          (\<Sum>(v, n)\<leftarrow>take k (take 2 ?us). v * of_int n)"
      by (auto simp: fl64_vals)
  qed
  note t = AverageMeter_update_sequence[of ?us fl64 ex_meter "1 / 2"]
  have "2 \<in> {1..length ?us}" by simp
  with t nz obtain mp m' where
    r: "updates fl64 (reset ex_meter) (take 2 ?us) = Inr m'"
    and v: "val m' = fst (?us ! (2 - 1))"
    and c: "count_m m' = (\<Sum>(v, n)\<leftarrow>take 2 ?us. n)"
    and a: "avg m' = fl64 (sum_m m' / fl64 (of_int (count_m m')))"
    and s: "exact_sums fl64 (take 2 ?us) \<longrightarrow>
             sum_m m' = (\<Sum>(v, n)\<leftarrow>take 2 ?us. v * of_int n)"
    by blast
  from s ex have s6: "sum_m m' = 6" by simp
  from c have c2: "count_m m' = 2" by simp
  from a have a3: "avg m' = 3" by (simp add: s6 c2 fl64_vals)
  from r v s6 c2 a3 have 1: "\<exists>m'. updates fl64 (reset ex_meter) ?us = Inr m' \<and>
         val m' = 4 \<and> sum_m m' = 6 \<and> count_m m' = 2 \<and> avg m' = 3"
    by simp
  from t have "\<exists>m'. update fl64 (reset ex_meter) (1 / 2) 1 = Inr m' \<and> avg m' = 1 / 2"
    by (simp add: fl64_vals)
  with 1 show ?thesis by blast
qed

text \<open>
  C4 as stated fails twice.  With the weight zero, \<open>reset\<close> followed by one \<open>update\<close>
  raises instead of leaving \<open>avg\<close> equal to the value.  With the weight \<open>3\<close> and the
  float nearest to \<open>0.1\<close>, the product and the quotient are both rounded and \<open>avg\<close> is the
  next float above the value (\<open>0.10000000000000002\<close>).
\<close>

theorem AverageMeter_zero_weight_counterexample:
  "update fl64 (reset ex_meter) 7 0 = Inl ZeroDivisionError \<and>
   map_sum id avg (update fl64 (reset ex_meter) (7205759403792794 / 2 ^ 56) 3) =
     Inr (7205759403792795 / 2 ^ 56)"
proof
  show "update fl64 (reset ex_meter) 7 0 = Inl ZeroDivisionError"
    by (simp add: update_Inl_iff reset_fields)
next
  let ?v = "7205759403792794 / 2 ^ 56 :: real"
  have v: "?v = 3602879701896397 / 2 ^ 55" by simp
  have p: "fl64 (?v * 3) = 5404319552844596 / 2 ^ 54"
    unfolding v by (rule tenth_times_three)
  have i: "fl64 (5404319552844596 / 2 ^ 54) = 5404319552844596 / 2 ^ 54"
    using fl64_exact[of "-2" "5404319552844596 / 2 ^ 54"]
    by (simp add: power_int_minus)
  obtain m' where u: "update fl64 (reset ex_meter) ?v 3 = Inr m'"
    by (simp add: update_Inr_iff reset_fields)
  then have "avg m' = fl64 (fl64 (sum_m (reset ex_meter) + fl64 (?v * fl64 (of_int 3))) /
      fl64 (of_int (count_m (reset ex_meter) + 3)))"
    by (simp only: update_Inr_iff) simp
  also have "\<dots> = fl64 (fl64 (fl64 (?v * 3)) / 3)"
    by (simp only: reset_fields add_0 of_int_numeral fl64_vals)
  also have "\<dots> = fl64 (fl64 (5404319552844596 / 2 ^ 54) / 3)"
    by (simp only: p)
  also have "\<dots> = fl64 (5404319552844596 / 2 ^ 54 / 3)"
    by (simp only: i)
  also have "\<dots> = 7205759403792795 / 2 ^ 56"
    by (rule third)
  finally have a: "avg m' = 7205759403792795 / 2 ^ 56" .
  show "map_sum id avg (update fl64 (reset ex_meter) ?v 3) =
     Inr (7205759403792795 / 2 ^ 56)"
    by (simp only: u map_sum.simps a)
qed

text \<open>
  C5 (as amended).  Reading the average before any update does not fail: after construction
  or \<open>reset\<close> it is \<open>0\<close>, and reading it never fails in any state.  The tracker fails in one
  place only: \<open>update\<close> raises \<open>ZeroDivisionError\<close> exactly when the count is zero after the
  weight has been added.
\<close>

theorem AverageMeter_failure_condition:
  "query_avg (AverageMeter_init self) = Inr 0 \<and>
   query_avg (reset m) = Inr 0 \<and>
   query_avg m \<noteq> Inl e \<and>
   (update fl m v n = Inl e \<longleftrightarrow> count_m m + n = 0 \<and> e = ZeroDivisionError)"
  by (simp add: query_avg_def reset_fields AverageMeter_init_def update_Inl_iff)

text \<open>
  C5 as stated fails on a freshly constructed tracker: the count is zero and the query
  returns \<open>0\<close>.
\<close>

theorem AverageMeter_query_before_update_counterexample:
  "count_m (AverageMeter_init ex_meter) = 0 \<and> query_avg (AverageMeter_init ex_meter) = Inr 0"
  by (simp add: query_avg_def reset_def AverageMeter_init_def)

section \<open>Claims about LossAccuracy\<close>






section \<open>Claims about the sampler capacity\<close>

lemma sampler_capacity_nonneg:
  assumes "0 \<le> bs"
  shows "sampler_capacity bs = (3 * bs) div 4"
proof -
  have e: "(hard_frac + hard_frac / 2) * of_int bs = of_int (3 * bs) / of_int 4"
    by (simp add: hard_frac_def)
  have "0 \<le> (hard_frac + hard_frac / 2) * of_int bs"
    using assms by (simp add: hard_frac_def)
  then have "sampler_capacity bs = \<lfloor>of_int (3 * bs) / (of_int 4 :: real)\<rfloor>"
    unfolding sampler_capacity_def py_int_def e by simp
  also have "\<dots> = (3 * bs) div 4"
    by (rule floor_divide_of_int_eq)
  finally show ?thesis .
qed

lemma sampler_capacity_neg:
  assumes "bs < 0"
  shows "sampler_capacity bs = - ((3 * (- bs)) div 4)"
proof -
  have e: "- ((hard_frac + hard_frac / 2) * of_int bs) = of_int (3 * (- bs)) / of_int 4"
    by (simp add: hard_frac_def)
  have "\<not> 0 \<le> (hard_frac + hard_frac / 2) * of_int bs"
    using assms by (simp add: hard_frac_def)
  then have "sampler_capacity bs = - \<lfloor>of_int (3 * (- bs)) / (of_int 4 :: real)\<rfloor>"
    unfolding sampler_capacity_def py_int_def ceiling_def e by simp
  also have "\<dots> = - ((3 * (- bs)) div 4)"
    by (simp only: floor_divide_of_int_eq)
  finally show ?thesis .
qed

text \<open>
  C2 (as amended).  For every batch size the sampler is constructed for the eight training
  classes with the capacity \<open>(hard_frac + hard_frac / 2) * batch_size\<close>, that is three
  quarters of the batch size, truncated toward zero.
\<close>

theorem sampler_capacity_truncates:
  "OurSampler_call c a =
     c_OurSampler c 8
       (if 0 \<le> batch_size a then (3 * batch_size a) div 4
        else - ((3 * (- batch_size a)) div 4))"
  by (simp add: OurSampler_call_def train_classes_def sampler_capacity_nonneg
      sampler_capacity_neg)

text \<open>
  C2 as stated fails for the batch size \<open>1\<close>: the value \<open>0.75\<close> rounds to \<open>1\<close>, and the
  capacity passed at construction is \<open>0\<close>.
\<close>

theorem sampler_capacity_round_counterexample:
  "spec_capacity 1 = 1 \<and> sampler_capacity 1 = 0"
  by (simp add: spec_capacity_def sampler_capacity_def hard_frac_def round_def py_int_def)

section \<open>Properties of Train and TestTriplets\<close>

lemma AverageMeter_init_fields:
  "val (AverageMeter_init self) = 0" "avg (AverageMeter_init self) = 0"
  "sum_m (AverageMeter_init self) = 0" "count_m (AverageMeter_init self) = 0"
  by (simp_all add: AverageMeter_init_def reset_def)

lemma Train_batch_Inr:
  assumes "Train_batch c st b = Inr st'"
  shows "tr_calls st' = tr_calls st @ [expected_call b]"
    and "feed_step c (tr_sampler st) b = Inr (tr_sampler st')"
    and "count_m (tr_losses st') = count_m (tr_losses st) + int (in_size b)"
    and "count_m (tr_loss_accs st') = count_m (tr_loss_accs st) + int (in_size b)"
    and "count_m (tr_emb_norms st') = count_m (tr_emb_norms st) + int (in_size b)"
    and "val (tr_losses st') =
           c_criterion c (out_dista b) (out_distb b) (replicate (length (out_dista b)) 1)"
  using assms
  by (auto simp: Train_batch_def Let_def call_criterion_def update_Inr_iff expected_call_def
      feed_step_def fill_1_def split: sum.splits)


lemma Train_loop_Inr:
  "Train_loop c st bs = Inr st' \<Longrightarrow>
     tr_calls st' = tr_calls st @ map expected_call bs \<and>
     sampler_feed c (tr_sampler st) bs = Inr (tr_sampler st') \<and>
     count_m (tr_losses st') = count_m (tr_losses st) + (\<Sum>b\<leftarrow>bs. int (in_size b)) \<and>
     count_m (tr_loss_accs st') = count_m (tr_loss_accs st) + (\<Sum>b\<leftarrow>bs. int (in_size b)) \<and>
     count_m (tr_emb_norms st') = count_m (tr_emb_norms st) + (\<Sum>b\<leftarrow>bs. int (in_size b))"
proof (induction c st bs rule: Train_loop.induct)
  case (1 c st)
  then show ?case by simp
next
  case (2 c st b bs)
  from "2.prems" obtain st1 where b: "Train_batch c st b = Inr st1"
    and l: "Train_loop c st1 bs = Inr st'"
    by (auto split: sum.splits)
  from "2.IH"[OF b l] Train_batch_Inr(1-5)[OF b] show ?case
    by simp
qed



lemma Train_Inr:
  assumes "Train c bs s = Inr st'"
  shows "tr_calls st' = map expected_call bs"
    and "sampler_feed c s bs = Inr (tr_sampler st')"
    and "count_m (tr_losses st') = (\<Sum>b\<leftarrow>bs. int (in_size b))"
    and "count_m (tr_loss_accs st') = (\<Sum>b\<leftarrow>bs. int (in_size b))"
    and "count_m (tr_emb_norms st') = (\<Sum>b\<leftarrow>bs. int (in_size b))"
  using Train_loop_Inr[OF assms[unfolded Train_def]]
  by (simp_all add: Train_start_def AverageMeter_init_fields)

lemma Test_batch_Inr:
  assumes "Test_batch c st b = Inr st'"
  shows "te_calls st' = te_calls st @ [expected_call b]"
    and "count_m (te_losses st') = count_m (te_losses st) + int (in_size b)"
    and "count_m (te_accs st') = count_m (te_accs st) + int (in_size b)"
    and "val (te_losses st') =
           c_criterion c (out_dista b) (out_distb b) (replicate (length (out_dista b)) 1)"
  using assms
  by (auto simp: Test_batch_def Let_def call_criterion_def update_Inr_iff expected_call_def
      fill_1_def split: sum.splits)


lemma Test_loop_Inr:
  "Test_loop c st bs = Inr st' \<Longrightarrow>
     te_calls st' = te_calls st @ map expected_call bs \<and>
     count_m (te_losses st') = count_m (te_losses st) + (\<Sum>b\<leftarrow>bs. int (in_size b)) \<and>
     count_m (te_accs st') = count_m (te_accs st) + (\<Sum>b\<leftarrow>bs. int (in_size b))"
proof (induction c st bs rule: Test_loop.induct)
  case (1 c st)
  then show ?case by simp
next
  case (2 c st b bs)
  from "2.prems" obtain st1 where b: "Test_batch c st b = Inr st1"
    and l: "Test_loop c st1 bs = Inr st'"
    by (auto split: sum.splits)
  from "2.IH"[OF b l] Test_batch_Inr(1-3)[OF b] show ?case
    by simp
qed



lemma TestTriplets_Inr:
  assumes "TestTriplets c bs = Inr st'"
  shows "te_calls st' = map expected_call bs"
    and "count_m (te_losses st') = (\<Sum>b\<leftarrow>bs. int (in_size b))"
    and "count_m (te_accs st') = (\<Sum>b\<leftarrow>bs. int (in_size b))"
  using Test_loop_Inr[OF assms[unfolded TestTriplets_def]]
  by (simp_all add: Test_start_def AverageMeter_init_fields)





lemma ex_Train_any:
  "Train ex_collab [ex_batch] s =
     Inr \<lparr>tr_losses = \<lparr>val = 2, avg = 2, sum_m = 4, count_m = 2\<rparr>,
          tr_loss_accs = \<lparr>val = 1 / 2, avg = 1 / 2, sum_m = 1, count_m = 2\<rparr>,
          tr_emb_norms = \<lparr>val = 1, avg = 1, sum_m = 2, count_m = 2\<rparr>,
          tr_sampler = Suc s, tr_calls = [([3, 1], [1, 2], [1, 1])]\<rparr>"
  by (simp add: Train_def Train_start_def Train_batch_def call_criterion_def ex_collab_def
      ex_batch_def LossAccuracy_def update_def AverageMeter_init_def reset_def fill_1_def
      Let_def fl64_vals)

lemma ex_Train:
  "Train ex_collab [ex_batch] 0 =
     Inr \<lparr>tr_losses = \<lparr>val = 2, avg = 2, sum_m = 4, count_m = 2\<rparr>,
          tr_loss_accs = \<lparr>val = 1 / 2, avg = 1 / 2, sum_m = 1, count_m = 2\<rparr>,
          tr_emb_norms = \<lparr>val = 1, avg = 1, sum_m = 2, count_m = 2\<rparr>,
          tr_sampler = 1, tr_calls = [([3, 1], [1, 2], [1, 1])]\<rparr>"
  by (simp add: ex_Train_any)

lemma ex_TestTriplets:
  "TestTriplets ex_collab [ex_batch] =
     Inr \<lparr>te_losses = \<lparr>val = 2, avg = 2, sum_m = 4, count_m = 2\<rparr>,
          te_accs = \<lparr>val = 1 / 2, avg = 1 / 2, sum_m = 1, count_m = 2\<rparr>,
          te_calls = [([3, 1], [1, 2], [1, 1])]\<rparr>"
  by (simp add: TestTriplets_def Test_start_def Test_batch_def call_criterion_def ex_collab_def
      ex_batch_def LossAccuracy_def update_def AverageMeter_init_def reset_def fill_1_def
      Let_def fl64_vals)

lemma ex_TestTriplets0:
  "TestTriplets ex_collab [ex_batch0] =
     Inr \<lparr>te_losses = \<lparr>val = 1, avg = 1, sum_m = 1, count_m = 1\<rparr>,
          te_accs = \<lparr>val = 0, avg = 0, sum_m = 0, count_m = 1\<rparr>,
          te_calls = [([1], [2], [1])]\<rparr>"
  by (simp add: TestTriplets_def Test_start_def Test_batch_def call_criterion_def ex_collab_def
      ex_batch0_def LossAccuracy_def update_def AverageMeter_init_def reset_def fill_1_def
      Let_def fl64_vals fl64_0)

section \<open>Claims about Train and TestTriplets\<close>

text \<open>
  C10.  In the training batch loop and in the validation loop alike, the target vector
  passed to the loss primitive is always the all-ones vector of the size of \<open>dista\<close>.  For
  every batch, the call of the loss primitive receives the two distance vectors of the batch
  and that target, and the loss recorded by the tracker is the value the primitive returns
  for them; over a whole run of either loop the calls are, batch by batch, exactly these,
  and no target holds any value other than \<open>1\<close>.
\<close>

theorem criterion_target_all_ones:
  "(Train_batch c st b = Inr st' \<longrightarrow>
      tr_calls st' =
        tr_calls st @ [(out_dista b, out_distb b, replicate (length (out_dista b)) 1)] \<and>
      val (tr_losses st') =
        c_criterion c (out_dista b) (out_distb b) (replicate (length (out_dista b)) 1)) \<and>
   (Test_batch c ts b' = Inr ts' \<longrightarrow>
      te_calls ts' =
        te_calls ts @ [(out_dista b', out_distb b', replicate (length (out_dista b')) 1)] \<and>
      val (te_losses ts') =
        c_criterion c (out_dista b') (out_distb b') (replicate (length (out_dista b')) 1)) \<and>
   (Train c bs s = Inr rt \<longrightarrow>
      tr_calls rt = map (\<lambda>b. (out_dista b, out_distb b, replicate (length (out_dista b)) 1)) bs \<and>
      (\<forall>(dista, distb, target)\<in>set (tr_calls rt).
          length target = length dista \<and> (\<forall>t\<in>set target. t = 1))) \<and>
   (TestTriplets c bs' = Inr rs \<longrightarrow>
      te_calls rs = map (\<lambda>b. (out_dista b, out_distb b, replicate (length (out_dista b)) 1)) bs' \<and>
      (\<forall>(dista, distb, target)\<in>set (te_calls rs).
          length target = length dista \<and> (\<forall>t\<in>set target. t = 1)))"
proof -
  have e: "expected_call = (\<lambda>b. (out_dista b, out_distb b, replicate (length (out_dista b)) 1))"
    by (rule ext) (simp add: expected_call_def)
  have 1: "tr_calls st' = tr_calls st @ [expected_call b] \<and>
      val (tr_losses st') =
        c_criterion c (out_dista b) (out_distb b) (replicate (length (out_dista b)) 1)"
    if "Train_batch c st b = Inr st'"
    using Train_batch_Inr(1,6)[OF that] by simp
  have 2: "te_calls ts' = te_calls ts @ [expected_call b'] \<and>
      val (te_losses ts') =
        c_criterion c (out_dista b') (out_distb b') (replicate (length (out_dista b')) 1)"
    if "Test_batch c ts b' = Inr ts'"
    using Test_batch_Inr(1,4)[OF that] by simp
  have 3: "tr_calls rt = map expected_call bs" if "Train c bs s = Inr rt"
    using Train_Inr(1)[OF that] .
  have 4: "te_calls rs = map expected_call bs'" if "TestTriplets c bs' = Inr rs"
    using TestTriplets_Inr(1)[OF that] .
  from 1 2 3 4 show ?thesis
    unfolding e by auto
qed

theorem criterion_target_all_ones_witness:
  "\<exists>st ts. Train_batch ex_collab (Train_start ex_collab 0) ex_batch = Inr st \<and>
     Test_batch ex_collab (Test_start ex_collab) ex_batch = Inr ts \<and>
     Train ex_collab [ex_batch] 0 = Inr st \<and>
     TestTriplets ex_collab [ex_batch] = Inr ts \<and>
     tr_calls st = [([3, 1], [1, 2], [1, 1])] \<and> te_calls ts = [([3, 1], [1, 2], [1, 1])] \<and>
     val (tr_losses st) = 2 \<and> val (te_losses ts) = 2"
proof -
  obtain st where st: "Train ex_collab [ex_batch] 0 = Inr st"
    using ex_Train by blast
  obtain ts where ts: "TestTriplets ex_collab [ex_batch] = Inr ts"
    using ex_TestTriplets by blast
  from st have sb: "Train_batch ex_collab (Train_start ex_collab 0) ex_batch = Inr st"
    by (simp add: Train_def split: sum.splits)
  from ts have tb: "Test_batch ex_collab (Test_start ex_collab) ex_batch = Inr ts"
    by (simp add: TestTriplets_def split: sum.splits)
  have cr: "c_criterion ex_collab (out_dista ex_batch) (out_distb ex_batch)
      (replicate (length (out_dista ex_batch)) 1) = 2"
    by (simp add: ex_collab_def ex_batch_def)
  have tc: "tr_calls (Train_start ex_collab 0) = []" "te_calls (Test_start ex_collab) = []"
    by (simp_all add: Train_start_def Test_start_def)
  note t = criterion_target_all_ones[of ex_collab "Train_start ex_collab 0" ex_batch st
      "Test_start ex_collab" ex_batch ts "[ex_batch]" 0 st "[ex_batch]" ts]
  from t sb tb st ts
  have "tr_calls st = [([3, 1], [1, 2], [1, 1])] \<and> te_calls ts = [([3, 1], [1, 2], [1, 1])] \<and>
     val (tr_losses st) = 2 \<and> val (te_losses ts) = 2"
    by (simp add: cr tc) (simp add: ex_batch_def)
  with sb tb st ts show ?thesis by blast
qed



section \<open>Properties of the validation block\<close>

lemma validations_append [simp]:
  "validations (xs @ ys) = validations xs @ validations ys"
  by (induction xs rule: validations.induct) simp_all

lemma saved_bests_append [simp]:
  "saved_bests (xs @ ys) = saved_bests xs @ saved_bests ys"
  by (induction xs rule: saved_bests.induct) simp_all

lemma regenerations_append [simp]:
  "regenerations (xs @ ys) = regenerations xs @ regenerations ys"
  by (induction xs rule: regenerations.induct) simp_all

lemma SaveCheckpoint_log:
  "fs_log (SaveCheckpoint d ck flag f) =
     fs_log f @ (if d \<in> fs_dirs f then [] else [MakeDirs d]) @
     [TorchSave (path_join d ''checkpoint.pth.tar'') ck] @
     (if flag then [CopyFile (path_join d ''checkpoint.pth.tar'')
                      (path_join d ''model_best.pth.tar'')] else [])"
  by (simp add: SaveCheckpoint_def Let_def makedirs_def torch_save_def copyfile_def)

lemma SaveCheckpoint_files:
  "fs_files (SaveCheckpoint d ck flag f) (path_join d ''checkpoint.pth.tar'') = Some ck"
  "fs_files (SaveCheckpoint d ck flag f) (path_join d ''model_best.pth.tar'') =
     (if flag then Some ck else fs_files f (path_join d ''model_best.pth.tar''))"
  by (simp_all add: SaveCheckpoint_def Let_def makedirs_def torch_save_def copyfile_def
      path_join_def)

lemma validation_block_Inr:
  assumes "validation_block c d ob e st = Inr st'"
  shows "\<exists>ts. TestTriplets c (val_batches ob) = Inr ts \<and>
     st' = st\<lparr>best_acc := max (avg (te_accs ts)) (best_acc st),
              fs := SaveCheckpoint d
                      \<lparr>ck_epoch = e + 1, ck_state_dict = state_dict ob,
                       ck_best_prec1 = max (avg (te_accs ts)) (best_acc st)\<rparr>
                      (best_acc st < avg (te_accs ts)) (fs st),
              trace := trace st @ [Validate e (avg (te_accs ts)) (best_acc st < avg (te_accs ts))]\<rparr>"
  using assms by (auto simp: validation_block_def Let_def split: sum.splits)


lemma ex_validation_block:
  "validation_block ex_collab ''runs'' (ex_obs e) e (ex_state b) =
     Inr \<lparr>best_acc = max (1 / 2) b, sampler = 0,
          fs = SaveCheckpoint ''runs''
                 \<lparr>ck_epoch = e + 1, ck_state_dict = (), ck_best_prec1 = max (1 / 2) b\<rparr>
                 (b < 1 / 2) ex_fs,
          trace = [Validate e (1 / 2) (b < 1 / 2)]\<rparr>"
  by (simp add: validation_block_def ex_obs_def ex_TestTriplets ex_state_def Let_def)

section \<open>Claims about checkpointing\<close>

text \<open>
  C6 (as amended).  On every validation cycle the checkpoint (epoch number plus one, model
  parameter snapshot, best accuracy so far) is persisted to \<open>checkpoint.pth.tar\<close>, whether or
  not the accuracy improved.  It is copied to \<open>model_best.pth.tar\<close> exactly when the new
  accuracy exceeds the previous best; otherwise that file is left as it was.
\<close>

theorem checkpoint_saved_every_validation:
  assumes "validation_block c d ob e st = Inr st'"
  shows "\<exists>acc ck.
     ck = \<lparr>ck_epoch = e + 1, ck_state_dict = state_dict ob,
           ck_best_prec1 = max acc (best_acc st)\<rparr> \<and>
     trace st' = trace st @ [Validate e acc (best_acc st < acc)] \<and>
     fs_log (fs st') =
       fs_log (fs st) @ (if d \<in> fs_dirs (fs st) then [] else [MakeDirs d]) @
       [TorchSave (path_join d ''checkpoint.pth.tar'') ck] @
       (if best_acc st < acc
        then [CopyFile (path_join d ''checkpoint.pth.tar'') (path_join d ''model_best.pth.tar'')]
        else []) \<and>
     fs_files (fs st') (path_join d ''checkpoint.pth.tar'') = Some ck \<and>
     fs_files (fs st') (path_join d ''model_best.pth.tar'') =
       (if best_acc st < acc then Some ck
        else fs_files (fs st) (path_join d ''model_best.pth.tar''))"
proof -
  from validation_block_Inr[OF assms] obtain ts where
    "TestTriplets c (val_batches ob) = Inr ts" and
    st': "st' = st\<lparr>best_acc := max (avg (te_accs ts)) (best_acc st),
              fs := SaveCheckpoint d
                      \<lparr>ck_epoch = e + 1, ck_state_dict = state_dict ob,
                       ck_best_prec1 = max (avg (te_accs ts)) (best_acc st)\<rparr>
                      (best_acc st < avg (te_accs ts)) (fs st),
              trace := trace st @ [Validate e (avg (te_accs ts)) (best_acc st < avg (te_accs ts))]\<rparr>"
    by blast
  let ?acc = "avg (te_accs ts)"
  let ?ck = "\<lparr>ck_epoch = e + 1, ck_state_dict = state_dict ob,
              ck_best_prec1 = max ?acc (best_acc st)\<rparr>"
  have "trace st' = trace st @ [Validate e ?acc (best_acc st < ?acc)]"
    by (simp add: st')
  moreover have "fs_log (fs st') =
       fs_log (fs st) @ (if d \<in> fs_dirs (fs st) then [] else [MakeDirs d]) @
       [TorchSave (path_join d ''checkpoint.pth.tar'') ?ck] @
       (if best_acc st < ?acc
        then [CopyFile (path_join d ''checkpoint.pth.tar'') (path_join d ''model_best.pth.tar'')]
        else [])"
    by (simp add: st' SaveCheckpoint_log)
  moreover have "fs_files (fs st') (path_join d ''checkpoint.pth.tar'') = Some ?ck"
    by (simp add: st' SaveCheckpoint_files)
  moreover have "fs_files (fs st') (path_join d ''model_best.pth.tar'') =
       (if best_acc st < ?acc then Some ?ck
        else fs_files (fs st) (path_join d ''model_best.pth.tar''))"
    by (simp add: st' SaveCheckpoint_files)
  ultimately show ?thesis by blast
qed

theorem checkpoint_saved_every_validation_witness:
  "\<exists>st'. validation_block ex_collab ''runs'' (ex_obs 2) 2 (ex_state 0) = Inr st' \<and>
     fs_log (fs st') =
       [MakeDirs ''runs'',
        TorchSave ''runs/checkpoint.pth.tar''
          \<lparr>ck_epoch = 3, ck_state_dict = (), ck_best_prec1 = 1 / 2\<rparr>,
        CopyFile ''runs/checkpoint.pth.tar'' ''runs/model_best.pth.tar'']"
proof -
  obtain st' where v: "validation_block ex_collab ''runs'' (ex_obs 2) 2 (ex_state 0) = Inr st'"
    using ex_validation_block by blast
  have t: "trace st' = [Validate 2 (1 / 2) True]"
    using v unfolding ex_validation_block by auto
  from checkpoint_saved_every_validation[OF v] obtain acc ck where
    ck: "ck = \<lparr>ck_epoch = 2 + 1, ck_state_dict = state_dict (ex_obs 2),
           ck_best_prec1 = max acc (best_acc (ex_state 0))\<rparr>"
    and tr: "trace st' = trace (ex_state 0) @ [Validate 2 acc (best_acc (ex_state 0) < acc)]"
    and lg: "fs_log (fs st') =
       fs_log (fs (ex_state 0)) @
       (if ''runs'' \<in> fs_dirs (fs (ex_state 0)) then [] else [MakeDirs ''runs'']) @
       [TorchSave (path_join ''runs'' ''checkpoint.pth.tar'') ck] @
       (if best_acc (ex_state 0) < acc
        then [CopyFile (path_join ''runs'' ''checkpoint.pth.tar'')
                (path_join ''runs'' ''model_best.pth.tar'')]
        else [])"
    by blast
  from tr t have acc: "acc = 1 / 2" by (simp add: ex_state_def)
  from lg have "fs_log (fs st') =
       [MakeDirs ''runs'',
        TorchSave ''runs/checkpoint.pth.tar''
          \<lparr>ck_epoch = 3, ck_state_dict = (), ck_best_prec1 = 1 / 2\<rparr>,
        CopyFile ''runs/checkpoint.pth.tar'' ''runs/model_best.pth.tar'']"
    by (simp add: ck acc ex_state_def ex_fs_def ex_obs_def path_join_def)
  with v show ?thesis by blast
qed

text \<open>
  C6 as stated fails on a validation cycle without improvement: with a previous best of \<open>1\<close>
  and a measured accuracy of \<open>1/2\<close> the flag is false, and the checkpoint is saved all the
  same.
\<close>

theorem checkpoint_saved_without_improvement_counterexample:
  "validation_block ex_collab ''runs'' (ex_obs 2) 2 (ex_state 1) =
     Inr \<lparr>best_acc = 1, sampler = 0,
          fs = \<lparr>fs_dirs = {''runs''},
                fs_files = [''runs/checkpoint.pth.tar'' \<mapsto>
                  \<lparr>ck_epoch = 3, ck_state_dict = (), ck_best_prec1 = 1\<rparr>],
                fs_log = [MakeDirs ''runs'',
                  TorchSave ''runs/checkpoint.pth.tar''
                    \<lparr>ck_epoch = 3, ck_state_dict = (), ck_best_prec1 = 1\<rparr>]\<rparr>,
          trace = [Validate 2 (1 / 2) False]\<rparr>"
  by (simp add: ex_validation_block SaveCheckpoint_def Let_def makedirs_def torch_save_def
      ex_fs_def path_join_def)

section \<open>Properties of the reference notions\<close>

lemma length_ref_flags [simp]: "length (ref_flags b accs) = length accs"
  by (induction accs arbitrary: b) simp_all

lemma length_ref_bests [simp]: "length (ref_bests b accs) = length accs"
  by (induction accs arbitrary: b) simp_all

lemma ref_bests_append:
  "ref_bests b (xs @ ys) = ref_bests b xs @ ref_bests (last (b # ref_bests b xs)) ys"
  by (induction xs arbitrary: b) simp_all

lemma ref_flags_append:
  "ref_flags b (xs @ ys) = ref_flags b xs @ ref_flags (last (b # ref_bests b xs)) ys"
  by (induction xs arbitrary: b) simp_all

lemma last_ref_bests_append:
  "last (b # ref_bests b (xs @ ys)) =
     last (last (b # ref_bests b xs) # ref_bests (last (b # ref_bests b xs)) ys)"
  by (simp add: ref_bests_append)

lemma ref_flags_nth:
  "i < length accs \<Longrightarrow>
     ref_flags b accs ! i \<longleftrightarrow> b < accs ! i \<and> (\<forall>j<i. accs ! j < accs ! i)"
proof (induction accs arbitrary: b i)
  case Nil
  then show ?case by simp
next
  case (Cons x accs)
  show ?case
  proof (cases i)
    case 0
    then show ?thesis by simp
  next
    case (Suc k)
    with Cons.prems have k: "k < length accs" by simp
    show ?thesis
      using Cons.IH[OF k, of "max x b"] by (auto simp: Suc All_less_Suc2)
  qed
qed

lemma max3: "max (max x b) (m::real) = max b (max x m)"
  by (auto simp: max_def)

lemma ref_bests_nth:
  "i < length accs \<Longrightarrow> ref_bests b accs ! i = Max (insert b (set (take (Suc i) accs)))"
proof (induction accs arbitrary: b i)
  case Nil
  then show ?case by simp
next
  case (Cons x accs)
  show ?case
  proof (cases i)
    case 0
    then show ?thesis by (simp add: max.commute)
  next
    case (Suc k)
    with Cons.prems have k: "k < length accs" by simp
    let ?S = "set (take (Suc k) accs)"
    have ne: "?S \<noteq> {}" using k by (cases accs) auto
    have fin: "finite ?S" by simp
    have "ref_bests b (x # accs) ! i = ref_bests (max x b) accs ! k"
      by (simp add: Suc)
    also have "\<dots> = Max (insert (max x b) ?S)"
      by (rule Cons.IH[OF k])
    also have "\<dots> = max (max x b) (Max ?S)"
      by (rule Max_insert[OF fin ne])
    also have "\<dots> = max b (max x (Max ?S))"
      by (rule max3)
    also have "\<dots> = max b (Max (insert x ?S))"
      by (simp only: Max_insert[OF fin ne])
    also have "\<dots> = Max (insert b (insert x ?S))"
      by (rule Max_insert[symmetric]) simp_all
    finally have r: "ref_bests b (x # accs) ! i = Max (insert b (insert x ?S))" .
    have e: "set (take (Suc i) (x # accs)) = insert x ?S"
      by (simp add: Suc)
    show ?thesis unfolding e by (rule r)
  qed
qed

lemma sorted_ref_bests: "sorted (b # ref_bests b accs)"
proof (induction accs arbitrary: b)
  case Nil
  then show ?case by simp
next
  case (Cons x accs)
  have s: "sorted (max x b # ref_bests (max x b) accs)" by (rule Cons.IH)
  have bx: "b \<le> max x b" by simp
  from s have "\<forall>y\<in>set (ref_bests (max x b) accs). max x b \<le> y"
    unfolding sorted_simps by (rule conjunct1)
  with bx have "\<forall>y\<in>set (ref_bests (max x b) accs). b \<le> y"
    by (meson order_trans)
  with s bx show ?case
    by (simp only: sorted_simps ref_bests.simps set_simps ball_simps) blast
qed

lemma val_consistent_refl: "val_consistent st st []"
  by (simp add: val_consistent_def)

lemma val_consistent_trans:
  assumes "val_consistent st st1 xs" and "val_consistent st1 st2 ys"
  shows "val_consistent st st2 (xs @ ys)"
proof -
  let ?b1 = "last (best_acc st # ref_bests (best_acc st) xs)"
  from assms(1) have b1: "best_acc st1 = ?b1" by (simp add: val_consistent_def)
  have z: "zip (xs @ ys) (ref_flags (best_acc st) (xs @ ys)) =
      zip xs (ref_flags (best_acc st) xs) @ zip ys (ref_flags ?b1 ys)"
    by (simp add: ref_flags_append)
  show ?thesis
    using assms unfolding val_consistent_def b1 z
    by (simp add: ref_bests_append)
qed

lemma validation_block_consistent:
  assumes "validation_block c d ob e st = Inr st'"
  shows "\<exists>acc. val_consistent st st' [acc] \<and> sampler st' = sampler st \<and>
     trace st' = trace st @ [Validate e acc (best_acc st < acc)]"
proof -
  from validation_block_Inr[OF assms] obtain ts where
    "TestTriplets c (val_batches ob) = Inr ts" and
    st': "st' = st\<lparr>best_acc := max (avg (te_accs ts)) (best_acc st),
              fs := SaveCheckpoint d
                      \<lparr>ck_epoch = e + 1, ck_state_dict = state_dict ob,
                       ck_best_prec1 = max (avg (te_accs ts)) (best_acc st)\<rparr>
                      (best_acc st < avg (te_accs ts)) (fs st),
              trace := trace st @ [Validate e (avg (te_accs ts)) (best_acc st < avg (te_accs ts))]\<rparr>"
    by blast
  have "val_consistent st st' [avg (te_accs ts)]"
    by (simp add: val_consistent_def st' SaveCheckpoint_log)
  then show ?thesis by (auto simp: st')
qed

section \<open>Properties of the epoch loop\<close>

lemma regeneration_block_Inr:
  assumes "regeneration_block c e st = Inr st'"
  shows "st' = st\<lparr>sampler := c_Reset c (sampler st),
                  trace := trace st @ [Regenerate e (sampler st) hard_frac, SamplerReset e]\<rparr>"
    and "\<exists>u. c_regenerate_triplet_list c (sampler st) hard_frac = Inr u"
  using assms by (auto simp: regeneration_block_def split: sum.splits)

lemma epoch_body_Inr:
  assumes "epoch_body c a d obs e st = Inr st'"
  shows "val_freq a \<noteq> 0" and "triplet_freq a \<noteq> 0"
    and "\<exists>accs. val_consistent st st' accs \<and>
           length accs = (if e mod val_freq a = 0 then 1 else 0)"
    and "map phase_of (trace st') = map phase_of (trace st) @ epoch_phases a e"
    and "\<exists>s1. sampler_feed c (sampler st) (train_batches (obs e)) = Inr s1 \<and>
           regenerations (trace st') = regenerations (trace st) @
             (if e mod triplet_freq a = 0 then [(e, s1, hard_frac)] else []) \<and>
           sampler st' = (if e mod triplet_freq a = 0 then c_Reset c s1 else s1)"
    and "length (filter is_TrainLoop (trace st')) = Suc (length (filter is_TrainLoop (trace st)))"
proof -
  from assms obtain ts where T: "Train c (train_batches (obs e)) (sampler st) = Inr ts"
    by (auto simp: epoch_body_def split: sum.splits)
  define st1 where "st1 = st\<lparr>sampler := tr_sampler ts, trace := trace st @ [TrainLoop e]\<rparr>"
  from assms T show vf: "val_freq a \<noteq> 0"
    by (auto simp: epoch_body_def Let_def split: if_splits)
  from assms T vf obtain st2 where
    V: "(if e mod val_freq a = 0 then validation_block c d (obs e) e st1 else Inr st1) = Inr st2"
    and R: "(if triplet_freq a = 0 then Inl ZeroDivisionError
             else if e mod triplet_freq a = 0 then regeneration_block c e st2
                  else Inr st2) = Inr st'"
    unfolding st1_def by (auto simp: epoch_body_def Let_def split: sum.splits)
  from R show tf: "triplet_freq a \<noteq> 0" by (auto split: if_splits)
  have st': "st' = (if e mod triplet_freq a = 0
      then st2\<lparr>sampler := c_Reset c (sampler st2),
               trace := trace st2 @ [Regenerate e (sampler st2) hard_frac, SamplerReset e]\<rparr>
      else st2)"
  proof (cases "e mod triplet_freq a = 0")
    case True
    with R tf have "regeneration_block c e st2 = Inr st'" by simp
    from regeneration_block_Inr(1)[OF this] True show ?thesis by simp
  next
    case False
    with R tf show ?thesis by simp
  qed
  have s1: "sampler_feed c (sampler st) (train_batches (obs e)) = Inr (sampler st1)"
    by (simp add: st1_def Train_Inr(2)[OF T])
  have c1: "val_consistent st st1 []"
    by (simp add: val_consistent_def st1_def)
  have "\<exists>accs. val_consistent st1 st2 accs \<and> sampler st2 = sampler st1 \<and>
      length accs = (if e mod val_freq a = 0 then 1 else 0) \<and>
      map phase_of (trace st2) = map phase_of (trace st1) @
        (if e mod val_freq a = 0 then [PValidate e] else []) \<and>
      regenerations (trace st2) = regenerations (trace st1) \<and>
      filter is_TrainLoop (trace st2) = filter is_TrainLoop (trace st1)"
  proof (cases "e mod val_freq a = 0")
    case True
    with V have "validation_block c d (obs e) e st1 = Inr st2" by simp
    from validation_block_consistent[OF this] obtain acc where
      "val_consistent st1 st2 [acc]" "sampler st2 = sampler st1"
      "trace st2 = trace st1 @ [Validate e acc (best_acc st1 < acc)]"
      by blast
    with True show ?thesis
      by (intro exI[of _ "[acc]"]) (simp add: is_TrainLoop_def)
  next
    case False
    with V have "st2 = st1" by simp
    with False show ?thesis
      by (intro exI[of _ "[]"]) (simp add: val_consistent_refl)
  qed
  then obtain accs where c2: "val_consistent st1 st2 accs"
    and s2: "sampler st2 = sampler st1"
    and l2: "length accs = (if e mod val_freq a = 0 then 1 else 0)"
    and p2: "map phase_of (trace st2) = map phase_of (trace st1) @
        (if e mod val_freq a = 0 then [PValidate e] else [])"
    and r2: "regenerations (trace st2) = regenerations (trace st1)"
    and f2: "filter is_TrainLoop (trace st2) = filter is_TrainLoop (trace st1)"
    by blast
  have c3: "val_consistent st2 st' []"
    by (simp add: val_consistent_def st')
  from val_consistent_trans[OF val_consistent_trans[OF c1 c2] c3] l2
  show "\<exists>accs. val_consistent st st' accs \<and>
           length accs = (if e mod val_freq a = 0 then 1 else 0)"
    by auto
  show "map phase_of (trace st') = map phase_of (trace st) @ epoch_phases a e"
    by (simp add: st' p2 epoch_phases_def st1_def)
  have "regenerations (trace st') = regenerations (trace st) @
             (if e mod triplet_freq a = 0 then [(e, sampler st1, hard_frac)] else []) \<and>
           sampler st' = (if e mod triplet_freq a = 0 then c_Reset c (sampler st1)
                          else sampler st1)"
    using s2 by (simp add: st' r2 st1_def)
  with s1 show "\<exists>s1. sampler_feed c (sampler st) (train_batches (obs e)) = Inr s1 \<and>
           regenerations (trace st') = regenerations (trace st) @
             (if e mod triplet_freq a = 0 then [(e, s1, hard_frac)] else []) \<and>
           sampler st' = (if e mod triplet_freq a = 0 then c_Reset c s1 else s1)"
    by blast
  show "length (filter is_TrainLoop (trace st')) = Suc (length (filter is_TrainLoop (trace st)))"
    by (simp add: st' f2 st1_def is_TrainLoop_def)
qed



lemma run_epochs_Inr:
  "run_epochs c a d obs es st = Inr st' \<Longrightarrow>
     (\<exists>accs. val_consistent st st' accs \<and>
        length accs = length (filter (\<lambda>e. e mod val_freq a = 0) es)) \<and>
     map phase_of (trace st') = map phase_of (trace st) @ concat (map (epoch_phases a) es) \<and>
     (\<exists>rs. expected_regens c a obs (sampler st) es = Inr (rs, sampler st') \<and>
        regenerations (trace st') = regenerations (trace st) @ rs) \<and>
     length (filter is_TrainLoop (trace st')) =
       length (filter is_TrainLoop (trace st)) + length es"
proof (induction es arbitrary: st)
  case Nil
  then show ?case using val_consistent_refl[of st] by auto
next
  case (Cons e es)
  from Cons.prems obtain st1 where b: "epoch_body c a d obs e st = Inr st1"
    and r: "run_epochs c a d obs es st1 = Inr st'"
    by (auto split: sum.splits)
  note B = epoch_body_Inr[OF b]
  note R = Cons.IH[OF r]
  from B(3) obtain xs where xs: "val_consistent st st1 xs"
    "length xs = (if e mod val_freq a = 0 then 1 else 0)" by blast
  from R obtain ys where ys: "val_consistent st1 st' ys"
    "length ys = length (filter (\<lambda>e. e mod val_freq a = 0) es)" by blast
  have "val_consistent st st' (xs @ ys)"
    by (rule val_consistent_trans[OF xs(1) ys(1)])
  moreover have "length (xs @ ys) = length (filter (\<lambda>e. e mod val_freq a = 0) (e # es))"
    using xs(2) ys(2) by simp
  ultimately have 1: "\<exists>accs. val_consistent st st' accs \<and>
        length accs = length (filter (\<lambda>e. e mod val_freq a = 0) (e # es))"
    by blast
  have 2: "map phase_of (trace st') =
      map phase_of (trace st) @ concat (map (epoch_phases a) (e # es))"
    using R B(4) by simp
  from B(5) obtain s1 where f: "sampler_feed c (sampler st) (train_batches (obs e)) = Inr s1"
    and g1: "regenerations (trace st1) = regenerations (trace st) @
             (if e mod triplet_freq a = 0 then [(e, s1, hard_frac)] else [])"
    and h1: "sampler st1 = (if e mod triplet_freq a = 0 then c_Reset c s1 else s1)"
    by blast
  from R obtain rs where x: "expected_regens c a obs (sampler st1) es = Inr (rs, sampler st')"
    and g: "regenerations (trace st') = regenerations (trace st1) @ rs"
    by blast
  have 3: "\<exists>rs. expected_regens c a obs (sampler st) (e # es) = Inr (rs, sampler st') \<and>
        regenerations (trace st') = regenerations (trace st) @ rs"
  proof (cases "e mod triplet_freq a = 0")
    case True
    with x h1 have "expected_regens c a obs (c_Reset c s1) es = Inr (rs, sampler st')" by simp
    with f True have "expected_regens c a obs (sampler st) (e # es) =
        Inr ((e, s1, hard_frac) # rs, sampler st')" by simp
    moreover from g g1 True have "regenerations (trace st') =
        regenerations (trace st) @ ((e, s1, hard_frac) # rs)" by simp
    ultimately show ?thesis by blast
  next
    case False
    with x h1 have "expected_regens c a obs s1 es = Inr (rs, sampler st')" by simp
    with f False have "expected_regens c a obs (sampler st) (e # es) = Inr (rs, sampler st')"
      by simp
    moreover from g g1 False have "regenerations (trace st') = regenerations (trace st) @ rs"
      by simp
    ultimately show ?thesis by blast
  qed
  have 4: "length (filter is_TrainLoop (trace st')) =
       length (filter is_TrainLoop (trace st)) + length (e # es)"
    using R B(6) by simp
  from 1 2 3 4 show ?case by blast
qed



lemma ex_sampler: "OurSampler_call ex_collab a = Inr 0"
  by (simp add: OurSampler_call_def ex_collab_def)

lemma main_Inr:
  assumes "main c a d obs fs0 = Inr st"
  shows "\<exists>s0 accs. OurSampler_call c a = Inr s0 \<and> val_consistent (initial_state s0 fs0) st accs"
    and "map phase_of (trace st) = concat (map (epoch_phases a) [1..epochs a])"
    and "\<exists>s0. OurSampler_call c a = Inr s0 \<and>
           expected_regens c a obs s0 [1..epochs a] = Inr (regenerations (trace st), sampler st)"
    and "length (filter is_TrainLoop (trace st)) = nat (epochs a)"
proof -
  from assms obtain s0 where s0: "OurSampler_call c a = Inr s0"
    and r: "run_epochs c a d obs [1..epochs a] (initial_state s0 fs0) = Inr st"
    by (auto simp: main_def split: sum.splits)
  note R = run_epochs_Inr[OF r]
  from R s0 show "\<exists>s0 accs. OurSampler_call c a = Inr s0 \<and>
      val_consistent (initial_state s0 fs0) st accs"
    by blast
  from R show "map phase_of (trace st) = concat (map (epoch_phases a) [1..epochs a])"
    by (simp add: initial_state_def)
  from R s0 show "\<exists>s0. OurSampler_call c a = Inr s0 \<and>
           expected_regens c a obs s0 [1..epochs a] = Inr (regenerations (trace st), sampler st)"
    by (auto simp: initial_state_def)
  from R show "length (filter is_TrainLoop (trace st)) = nat (epochs a)"
    by (simp add: initial_state_def)
qed



section \<open>Claims about the epoch loop\<close>




text \<open>
  C9 (as amended).  Across the validation cycles of one run the tracked best accuracy is
  non-decreasing: after each cycle it is the greatest of \<open>0\<close> (its initial value) and the
  accuracies measured so far, and that is the value saved with the checkpoint.  The
  \<open>is_best\<close> flag of a cycle is true exactly when its accuracy is strictly greater than \<open>0\<close>
  and than every validation accuracy recorded before.
\<close>

theorem best_accuracy_tracking:
  assumes "main c a d obs fs0 = Inr st"
  shows "\<exists>bests.
     saved_bests (fs_log (fs st)) = saved_bests (fs_log fs0) @ bests \<and>
     length bests = length (validations (trace st)) \<and>
     sorted (0 # bests) \<and> best_acc st = last (0 # bests) \<and>
     (\<forall>i<length bests.
         bests ! i = Max (insert 0 (set (take (Suc i) (map fst (validations (trace st))))))) \<and>
     (\<forall>i<length bests.
         snd (validations (trace st) ! i) \<longleftrightarrow>
           0 < fst (validations (trace st) ! i) \<and>
           (\<forall>j<i. fst (validations (trace st) ! j) < fst (validations (trace st) ! i)))"
proof -
  from main_Inr(1)[OF assms] obtain s0 accs where
    "val_consistent (initial_state s0 fs0) st accs" by blast
  then have vs: "validations (trace st) = zip accs (ref_flags 0 accs)"
    and sb: "saved_bests (fs_log (fs st)) = saved_bests (fs_log fs0) @ ref_bests 0 accs"
    and ba: "best_acc st = last (0 # ref_bests 0 accs)"
    by (simp_all add: val_consistent_def initial_state_def)
  have mf: "map fst (validations (trace st)) = accs"
    unfolding vs by (simp add: map_fst_zip)
  have len: "length (validations (trace st)) = length accs"
    unfolding vs by simp
  have nth: "validations (trace st) ! i = (accs ! i, ref_flags 0 accs ! i)"
    if "i < length accs" for i
    unfolding vs using that by simp
  have "\<forall>i<length (ref_bests 0 accs).
         ref_bests 0 accs ! i = Max (insert 0 (set (take (Suc i) (map fst (validations (trace st))))))"
    unfolding mf by (simp add: ref_bests_nth)
  moreover have "\<forall>i<length (ref_bests 0 accs).
         snd (validations (trace st) ! i) \<longleftrightarrow>
           0 < fst (validations (trace st) ! i) \<and>
           (\<forall>j<i. fst (validations (trace st) ! j) < fst (validations (trace st) ! i))"
  proof (intro allI impI)
    fix i assume "i < length (ref_bests 0 accs)"
    then have i: "i < length accs" by simp
    have "(\<forall>j<i. fst (validations (trace st) ! j) < fst (validations (trace st) ! i)) \<longleftrightarrow>
        (\<forall>j<i. accs ! j < accs ! i)"
      using i by (simp add: nth)
    then show "snd (validations (trace st) ! i) \<longleftrightarrow>
           0 < fst (validations (trace st) ! i) \<and>
           (\<forall>j<i. fst (validations (trace st) ! j) < fst (validations (trace st) ! i))"
      using i by (simp add: nth ref_flags_nth)
  qed
  ultimately show ?thesis
    using sb ba len sorted_ref_bests[of 0 accs]
    by (intro exI[of _ "ref_bests 0 accs"]) simp
qed

theorem best_accuracy_tracking_witness:
  "\<exists>st. main ex_collab (ex_args 2 1 2) ''runs'' ex_obs ex_fs = Inr st \<and>
     validations (trace st) = [(1 / 2, True), (1 / 2, False)] \<and>
     saved_bests (fs_log (fs st)) = [1 / 2, 1 / 2] \<and> best_acc st = 1 / 2"
proof -
  have u: "[1..2] = [1, 2 :: int]" by (simp add: upto_rec1)
  have g: "c_regenerate_triplet_list ex_collab s h = Inr ()" for s h
    by (simp add: ex_collab_def)
  have r: "c_Reset ex_collab s = 0" for s
    by (simp add: ex_collab_def)
  have ev: "map_sum id (\<lambda>st. validations (trace st))
      (main ex_collab (ex_args 2 1 2) ''runs'' ex_obs ex_fs) =
        Inr [(1 / 2, True), (1 / 2, False)]"
    by (simp add: main_def ex_sampler ex_args_def u epoch_body_def ex_obs_def ex_Train_any
        initial_state_def Let_def validation_block_def ex_TestTriplets regeneration_block_def
        g r)
  then obtain st where st: "main ex_collab (ex_args 2 1 2) ''runs'' ex_obs ex_fs = Inr st"
    and vs: "validations (trace st) = [(1 / 2, True), (1 / 2, False)]"
    by (cases "main ex_collab (ex_args 2 1 2) ''runs'' ex_obs ex_fs") auto
  from best_accuracy_tracking[OF st] obtain bests where
    sb: "saved_bests (fs_log (fs st)) = saved_bests (fs_log ex_fs) @ bests"
    and len: "length bests = length (validations (trace st))"
    and ba: "best_acc st = last (0 # bests)"
    and mx: "\<forall>i<length bests.
         bests ! i = Max (insert 0 (set (take (Suc i) (map fst (validations (trace st))))))"
    by blast
  from len vs have l2: "length bests = 2" by simp
  then obtain x y where xy: "bests = [x, y]"
    by (cases bests; cases "tl bests") auto
  from mx have "bests ! 0 = Max (insert 0 (set (take (Suc 0) (map fst (validations (trace st))))))"
    "bests ! 1 = Max (insert 0 (set (take (Suc 1) (map fst (validations (trace st))))))"
    using l2 by simp_all
  then have "x = 1 / 2" "y = 1 / 2"
    by (simp_all add: xy vs)
  with sb ba xy have "saved_bests (fs_log (fs st)) = [1 / 2, 1 / 2] \<and> best_acc st = 1 / 2"
    by (simp add: ex_fs_def)
  with st vs show ?thesis by blast
qed

text \<open>
  C9 as stated fails on a first validation that measures the accuracy \<open>0\<close>: no accuracy was
  recorded before it, so it exceeds every previous one, and the flag is false.
\<close>

theorem first_validation_zero_counterexample:
  "map_sum id trace (main ex_collab (ex_args 1 1 2) ''runs'' ex_obs0 ex_fs) =
     Inr [TrainLoop 1, Validate 1 0 False]"
  by (simp add: main_def ex_sampler ex_args_def epoch_body_def ex_obs0_def ex_Train_any
      initial_state_def Let_def validation_block_def ex_TestTriplets0)

section \<open>Properties of the hard-negative sampler\<close>

lemma mset_insert_desc: "mset (insert_desc r xs) = add_mset r (mset xs)"
  by (induction xs) auto

lemma set_insert_desc: "set (insert_desc r xs) = insert r (set xs)"
  by (induction xs) auto

lemma length_insert_desc: "length (insert_desc r xs) = Suc (length xs)"
  by (induction xs) auto

lemma desc_insert_desc: "desc_by_loss xs \<Longrightarrow> desc_by_loss (insert_desc r xs)"
  unfolding desc_by_loss_def
  by (induction xs) (auto simp: set_insert_desc)

lemma take_insert_desc:
  "desc_by_loss xs \<Longrightarrow>
     take (Suc n) (insert_desc r xs) =
       (if n < length xs \<and> \<not> hr_loss r > hr_loss (xs ! n) then take (Suc n) xs
        else insert_desc r (take n xs))"
proof (induction xs arbitrary: n)
  case Nil
  then show ?case by simp
next
  case (Cons x xs)
  from Cons.prems have d: "desc_by_loss xs" and le: "\<forall>y\<in>set xs. hr_loss y \<le> hr_loss x"
    by (simp_all add: desc_by_loss_def)
  show ?case
  proof (cases n)
    case 0
    then show ?thesis by simp
  next
    case (Suc k)
    show ?thesis
    proof (cases "hr_loss r > hr_loss x")
      case True
      have "hr_loss r > hr_loss (xs ! k)" if "k < length xs"
      proof -
        from that have "xs ! k \<in> set xs" by simp
        with le have "hr_loss (xs ! k) \<le> hr_loss x" by blast
        with True show ?thesis by simp
      qed
      with True show ?thesis by (auto simp: Suc)
    next
      case False
      with Cons.IH[OF d, of k] show ?thesis by (simp add: Suc)
    qed
  qed
qed

lemma insert_bounded_take:
  assumes "desc_by_loss xs" and "0 < cap"
  shows "insert_bounded cap r (take cap xs) = take cap (insert_desc r xs)"
proof -
  from assms(2) obtain n where cap: "cap = Suc n" by (cases cap) auto
  show ?thesis
  proof (cases "length xs < cap")
    case True
    then show ?thesis
      by (simp add: insert_bounded_def length_insert_desc)
  next
    case False
    then have n: "n < length xs" by (simp add: cap)
    then have l: "last (take (Suc n) xs) = xs ! n"
      by (simp add: take_Suc_conv_app_nth)
    have b: "butlast (take (Suc n) xs) = take n xs"
      using n by (simp add: butlast_take)
    have ne: "take (Suc n) xs \<noteq> []" using n by auto
    have len: "\<not> length (take (Suc n) xs) < Suc n" using n by simp
    show ?thesis
      unfolding cap take_insert_desc[OF assms(1)] insert_bounded_def
      using n ne len by (simp only: l b if_True if_False simp_thms split: if_splits) auto
  qed
qed

lemma foldl_insert_bounded:
  "desc_by_loss D \<Longrightarrow> 0 < cap \<Longrightarrow>
     foldl (\<lambda>xs r. insert_bounded cap r xs) (take cap D) rs =
       take cap (foldl (\<lambda>xs r. insert_desc r xs) D rs)"
proof (induction rs arbitrary: D)
  case Nil
  then show ?case by simp
next
  case (Cons r rs)
  have "foldl (\<lambda>xs r. insert_bounded cap r xs) (take cap D) (r # rs) =
      foldl (\<lambda>xs r. insert_bounded cap r xs) (take cap (insert_desc r D)) rs"
    by (simp add: insert_bounded_take[OF Cons.prems])
  also have "\<dots> = take cap (foldl (\<lambda>xs r. insert_desc r xs) (insert_desc r D) rs)"
    by (rule Cons.IH[OF desc_insert_desc[OF Cons.prems(1)] Cons.prems(2)])
  finally show ?case by simp
qed

lemma foldl_insert_desc_props:
  "desc_by_loss D \<Longrightarrow>
     desc_by_loss (foldl (\<lambda>xs r. insert_desc r xs) D rs) \<and>
     mset (foldl (\<lambda>xs r. insert_desc r xs) D rs) = mset D + mset rs"
  by (induction rs arbitrary: D) (simp_all add: desc_insert_desc mset_insert_desc)

lemma stable_desc_props:
  "desc_by_loss (stable_desc rs)" "mset (stable_desc rs) = mset rs"
  using foldl_insert_desc_props[of "[]" rs]
  by (simp_all add: stable_desc_def desc_by_loss_def)

lemma length_insert_bounded:
  "length xs \<le> cap \<Longrightarrow> length (insert_bounded cap r xs) \<le> cap"
  by (auto simp: insert_bounded_def length_insert_desc)

lemma insert_record_Inr:
  assumes "insert_record label s r = Inr s'"
  shows "num_classes s' = num_classes s" and "capacity_per_class s' = capacity_per_class s"
    and "pools s' c =
          (if record_class label r = c then insert_bounded (capacity_per_class s) r (pools s c)
           else pools s c)"
  using assms by (auto simp: insert_record_def Let_def split: if_splits)

lemma insert_records_Inr:
  "insert_records label s rs = Inr s' \<Longrightarrow>
     num_classes s' = num_classes s \<and> capacity_per_class s' = capacity_per_class s \<and>
     pools s' c = foldl (\<lambda>xs r. insert_bounded (capacity_per_class s) r xs) (pools s c)
                    (filter (\<lambda>r. record_class label r = c) rs)"
proof (induction rs arbitrary: s)
  case Nil
  then show ?case by simp
next
  case (Cons r rs)
  from Cons.prems obtain s1 where a: "insert_record label s r = Inr s1"
    and b: "insert_records label s1 rs = Inr s'"
    by (auto split: sum.splits)
  from Cons.IH[OF b] insert_record_Inr(1,2)[OF a] insert_record_Inr(3)[OF a, of c]
  show ?case by simp
qed

lemma SampleNegatives_Inr:
  assumes "SampleNegatives label s dista distb loss_values idx = Inr s'"
  shows "insert_records label s (batch_records dista distb loss_values idx) = Inr s'"
  using assms by (auto simp: SampleNegatives_def split: prod.splits if_splits)

lemma SampleNegatives_calls_Inr:
  "SampleNegatives_calls label s calls = Inr s' \<Longrightarrow>
     num_classes s' = num_classes s \<and> capacity_per_class s' = capacity_per_class s \<and>
     pools s' c = foldl (\<lambda>xs r. insert_bounded (capacity_per_class s) r xs) (pools s c)
                    (arrivals label c calls)"
proof (induction label s calls rule: SampleNegatives_calls.induct)
  case (1 label s)
  then show ?case by (simp add: arrivals_def)
next
  case (2 label s dista distb loss_values idx calls)
  from "2.prems" obtain s1 where a: "SampleNegatives label s dista distb loss_values idx = Inr s1"
    and b: "SampleNegatives_calls label s1 calls = Inr s'"
    by (auto split: sum.splits)
  from "2.IH"[OF a b] insert_records_Inr[OF SampleNegatives_Inr[OF a], of c]
  show ?case by (simp add: arrivals_def)
qed

lemma Construct_Inr:
  assumes "Construct n k = Inr s0"
  shows "0 < n" "0 < k" "num_classes s0 = nat n" "capacity_per_class s0 = nat k"
    "pools s0 c = []"
  using assms by (auto simp: Construct_def split: if_splits)

lemma sampler_pools:
  assumes "Construct n k = Inr s0" and "SampleNegatives_calls label s0 calls = Inr s"
  shows "pools s c = take (capacity_per_class s) (stable_desc (arrivals label c calls))"
    and "capacity_per_class s = nat k" and "num_classes s = nat n" and "0 < capacity_per_class s"
proof -
  note C = Construct_Inr[OF assms(1)]
  note S = SampleNegatives_calls_Inr[OF assms(2), of c]
  from S C show cap: "capacity_per_class s = nat k" by simp
  from S C show "num_classes s = nat n" by simp
  from cap C(2) show pos: "0 < capacity_per_class s" by simp
  have d: "desc_by_loss []" by (simp add: desc_by_loss_def)
  from S have "pools s c = foldl (\<lambda>xs r. insert_bounded (capacity_per_class s) r xs)
      (take (capacity_per_class s) []) (arrivals label c calls)"
    by (simp add: C(5))
  also have "\<dots> = take (capacity_per_class s)
      (foldl (\<lambda>xs r. insert_desc r xs) [] (arrivals label c calls))"
    by (rule foldl_insert_bounded[OF d pos])
  finally show "pools s c = take (capacity_per_class s) (stable_desc (arrivals label c calls))"
    by (simp add: stable_desc_def)
qed

lemma insert_bounded_at_capacity:
  "length xs = cap \<Longrightarrow> 0 < cap \<Longrightarrow>
     insert_bounded cap r xs =
       (if hr_loss (last xs) < hr_loss r then insert_desc r (butlast xs) else xs)"
  by (auto simp: insert_bounded_def)

lemma stable_desc_distinct:
  assumes "distinct (map hr_loss rs)"
  shows "stable_desc rs = rev (sort_key hr_loss rs)"
proof -
  let ?D = "stable_desc rs" and ?R = "rev (sort_key hr_loss rs)"
  have m: "mset ?D = mset rs" by (rule stable_desc_props)
  then have sD: "set ?D = set rs" by (metis set_mset_mset)
  have sR: "set ?R = set rs" by simp
  from m have "mset (map hr_loss ?D) = mset (map hr_loss rs)" by simp
  with assms have dD: "distinct (map hr_loss ?D)"
    using mset_eq_imp_distinct_iff by blast
  have dR: "distinct (map hr_loss ?R)"
    using assms by (simp add: distinct_rev rev_map[symmetric] distinct_map)
  have "sorted_wrt (\<lambda>x y. hr_loss x \<ge> hr_loss y) ?D"
    using stable_desc_props(1)[of rs] by (simp add: desc_by_loss_def)
  then have oD: "sorted (rev (map hr_loss ?D))"
    by (simp add: sorted_wrt_rev sorted_wrt_map)
  have oR: "sorted (rev (map hr_loss ?R))"
    by (simp add: rev_map)
  have "rev (map hr_loss ?D) = rev (map hr_loss ?R)"
  proof (rule sorted_distinct_set_unique[OF oD _ oR])
    show "distinct (rev (map hr_loss ?D))" using dD by simp
    show "distinct (rev (map hr_loss ?R))" using dR by simp
    show "set (rev (map hr_loss ?D)) = set (rev (map hr_loss ?R))"
      using sD sR by simp
  qed
  then have e: "map hr_loss ?D = map hr_loss ?R" by simp
  have "inj_on hr_loss (set ?D \<union> set ?R)"
    using assms sD sR by (simp add: distinct_map)
  from inj_on_map_eq_map[OF this] e show ?thesis by blast
qed

lemma ex_Construct: "Construct 2 2 = Inr ex_sampler0"
  by (simp add: Construct_def ex_sampler0_def)

lemma ex_batch_records:
  "batch_records [5, 5, 5] [1, 1, 1] [1, 3, 2] ([10, 11, 12], [13, 14, 15], [16, 17, 18]) =
     [\<lparr>hr_triplet = (10, 13, 16), hr_loss = 1, hr_margin = 4\<rparr>,
      \<lparr>hr_triplet = (11, 14, 17), hr_loss = 3, hr_margin = 4\<rparr>,
      \<lparr>hr_triplet = (12, 15, 18), hr_loss = 2, hr_margin = 4\<rparr>]"
  by (simp add: batch_records_def upt_rec[of 0] upt_rec[of 1] upt_rec[of 2] upt_rec[of 3])

lemma ex_SampleNegatives_calls:
  "SampleNegatives_calls (\<lambda>i. 0) ex_sampler0 [ex_call] =
     Inr \<lparr>num_classes = 2, capacity_per_class = 2,
          pools = (\<lambda>c. [])(0 := [\<lparr>hr_triplet = (11, 14, 17), hr_loss = 3, hr_margin = 4\<rparr>,
                                  \<lparr>hr_triplet = (12, 15, 18), hr_loss = 2, hr_margin = 4\<rparr>])\<rparr>"
  by (simp add: ex_call_def SampleNegatives_def ex_batch_records insert_record_def
      record_class_def ex_sampler0_def insert_bounded_def Let_def)

section \<open>Claims about the hard-negative sampler\<close>

text \<open>
  C7.  For every class and every sequence of \<open>SampleNegatives\<close> calls on a constructed
  sampler, the collection of the class never holds more than \<open>capacity_per_class\<close> records.
  An insertion that arrives at capacity displaces the least hard record only if the new
  hardness exceeds it.  The snapshot \<open>HardestForClass\<close> returns is the first
  \<open>capacity_per_class\<close> records of a descending ordering of all records that arrived for the
  class; when their hardnesses are distinct (as for \<open>capacity + 1\<close> distinct-hardness
  triplets) it is exactly the top \<open>capacity_per_class\<close> by hardness, in descending order.
\<close>

theorem sampler_keeps_top_capacity:
  assumes "Construct n k = Inr s0" and "SampleNegatives_calls label s0 calls = Inr s"
  shows "(\<forall>c. length (pools s c) \<le> capacity_per_class s) \<and>
     (\<forall>r xs. length xs = capacity_per_class s \<longrightarrow>
        insert_bounded (capacity_per_class s) r xs =
          (if hr_loss (last xs) < hr_loss r then insert_desc r (butlast xs) else xs)) \<and>
     (\<forall>c<num_classes s. \<exists>D. desc_by_loss D \<and> mset D = mset (arrivals label c calls) \<and>
        HardestForClass s (int c) = Inr (take (capacity_per_class s) D)) \<and>
     (\<forall>c<num_classes s. distinct (map hr_loss (arrivals label c calls)) \<longrightarrow>
        HardestForClass s (int c) =
          Inr (take (capacity_per_class s) (rev (sort_key hr_loss (arrivals label c calls)))))"
proof -
  note P = sampler_pools[OF assms]
  have 1: "\<forall>c. length (pools s c) \<le> capacity_per_class s"
    by (simp add: P(1))
  have 2: "\<forall>r xs. length xs = capacity_per_class s \<longrightarrow>
        insert_bounded (capacity_per_class s) r xs =
          (if hr_loss (last xs) < hr_loss r then insert_desc r (butlast xs) else xs)"
    using P(4) by (simp add: insert_bounded_at_capacity)
  have h: "HardestForClass s (int c) =
        Inr (take (capacity_per_class s) (stable_desc (arrivals label c calls)))"
    if "c < num_classes s" for c
    using that by (simp add: HardestForClass_def P(1))
  have 3: "\<forall>c<num_classes s. \<exists>D. desc_by_loss D \<and> mset D = mset (arrivals label c calls) \<and>
        HardestForClass s (int c) = Inr (take (capacity_per_class s) D)"
    using h stable_desc_props by blast
  have 4: "\<forall>c<num_classes s. distinct (map hr_loss (arrivals label c calls)) \<longrightarrow>
        HardestForClass s (int c) =
          Inr (take (capacity_per_class s) (rev (sort_key hr_loss (arrivals label c calls))))"
    using h stable_desc_distinct by simp
  from 1 2 3 4 show ?thesis by blast
qed

theorem sampler_keeps_top_capacity_witness:
  "\<exists>s. SampleNegatives_calls (\<lambda>i. 0) ex_sampler0 [ex_call] = Inr s \<and>
     length (pools s 0) \<le> 2 \<and>
     HardestForClass s 0 =
       Inr [\<lparr>hr_triplet = (11, 14, 17), hr_loss = 3, hr_margin = 4\<rparr>,
            \<lparr>hr_triplet = (12, 15, 18), hr_loss = 2, hr_margin = 4\<rparr>]"
proof -
  obtain s where s: "SampleNegatives_calls (\<lambda>i. 0) ex_sampler0 [ex_call] = Inr s"
    using ex_SampleNegatives_calls by blast
  have cap: "capacity_per_class s = 2" and nc: "num_classes s = 2"
    using s by (auto simp: ex_SampleNegatives_calls)
  have ar: "arrivals (\<lambda>i. 0) 0 [ex_call] =
     [\<lparr>hr_triplet = (10, 13, 16), hr_loss = 1, hr_margin = 4\<rparr>,
      \<lparr>hr_triplet = (11, 14, 17), hr_loss = 3, hr_margin = 4\<rparr>,
      \<lparr>hr_triplet = (12, 15, 18), hr_loss = 2, hr_margin = 4\<rparr>]"
    by (simp add: arrivals_def ex_call_def ex_batch_records record_class_def)
  note t = sampler_keeps_top_capacity[OF ex_Construct s]
  from t have 1: "length (pools s 0) \<le> 2" using cap by metis
  have d: "distinct (map hr_loss (arrivals (\<lambda>i. 0) 0 [ex_call]))"
    by (simp add: ar)
  from t have "\<forall>c<num_classes s. distinct (map hr_loss (arrivals (\<lambda>i. 0) c [ex_call])) \<longrightarrow>
        HardestForClass s (int c) =
          Inr (take (capacity_per_class s) (rev (sort_key hr_loss (arrivals (\<lambda>i. 0) c [ex_call]))))"
    by blast
  moreover have "0 < num_classes s" using nc by simp
  ultimately have "HardestForClass s (int 0) =
      Inr (take (capacity_per_class s) (rev (sort_key hr_loss (arrivals (\<lambda>i. 0) 0 [ex_call]))))"
    using d by blast
  then have 2: "HardestForClass s 0 =
       Inr [\<lparr>hr_triplet = (11, 14, 17), hr_loss = 3, hr_margin = 4\<rparr>,
            \<lparr>hr_triplet = (12, 15, 18), hr_loss = 2, hr_margin = 4\<rparr>]"
    by (simp add: cap ar)
  from s 1 2 show ?thesis by blast
qed


end
